theory Spec2Isabelle
  imports Complex_Main
begin

section \<open>Tensors as nested lists\<close>

text \<open>
  The model of \<^verbatim>\<open>src/src/model.py\<close>. Numbers are real numbers; a tensor of shape
  \<open>(B, L, D)\<close> is a list of \<open>B\<close> lists of \<open>L\<close> lists of \<open>D\<close> numbers, a token-index
  tensor of shape \<open>(B, L)\<close> is a list of \<open>B\<close> lists of \<open>L\<close> integers. A nested list
  with an empty outer axis does not carry the sizes of its inner axes, so the statements
  below are made for batches with at least one row.
\<close>

type_synonym vec = "real list"
type_synonym mat = "real list list"
type_synonym tensor3 = "real list list list"
type_synonym tensor4 = "real list list list list"
type_synonym index2 = "int list list"

text \<open>The hidden state of an LSTM: the pair \<open>(h, c)\<close>, each of shape
  \<open>(layers * directions, B, H)\<close>.\<close>

type_synonym hidden = "tensor3 \<times> tensor3"

text \<open>The two failures of the forward path: the \<^verbatim>\<open>IndexError\<close> of an embedding lookup
  and the \<^verbatim>\<open>RuntimeError\<close> of \<^verbatim>\<open>torch.cat\<close> on an empty list of tensors.\<close>

datatype error = IndexOutOfRange | CatEmptyList

definition shape2 :: "nat \<Rightarrow> nat \<Rightarrow> 'a list list \<Rightarrow> bool" where
  "shape2 B L t = (length t = B \<and> list_all (\<lambda>row. length row = L) t)"

definition shape3 :: "nat \<Rightarrow> nat \<Rightarrow> nat \<Rightarrow> 'a list list list \<Rightarrow> bool" where
  "shape3 B L D t = (length t = B \<and> list_all (shape2 L D) t)"

text \<open>\<^verbatim>\<open>t.size(1)\<close>.\<close>

definition size1 :: "'a list list \<Rightarrow> nat" where
  "size1 t = (case t of [] \<Rightarrow> 0 | row # _ \<Rightarrow> length row)"

definition dot :: "vec \<Rightarrow> vec \<Rightarrow> real" where
  "dot x y = sum_list (map2 (*) x y)"

text \<open>\<^verbatim>\<open>t.transpose(0, 1)\<close> of a matrix.\<close>

definition transpose_mat :: "mat \<Rightarrow> mat" where
  "transpose_mat m = map (\<lambda>j. map (\<lambda>row. row ! j) m) [0..<size1 m]"

text \<open>The matrix product: entry \<open>(i, j)\<close> is the dot product of row \<open>i\<close> of \<open>a\<close> and
  column \<open>j\<close> of \<open>b\<close>.\<close>

definition matmul :: "mat \<Rightarrow> mat \<Rightarrow> mat" where
  "matmul a b = map (\<lambda>row. map (\<lambda>j. dot row (map (\<lambda>r. r ! j) b)) [0..<size1 b]) a"

text \<open>\<^verbatim>\<open>torch.bmm\<close>: the matrix product of each batch item.\<close>

definition bmm :: "tensor3 \<Rightarrow> tensor3 \<Rightarrow> tensor3" where
  "bmm a b = map2 matmul a b"

text \<open>\<^verbatim>\<open>softmax(t, dim=1)\<close> of a tensor of shape \<open>(B, M, N)\<close>: entry \<open>(b, r, j)\<close> is
  divided by the sum over the axis of size \<open>M\<close>.\<close>

definition softmax_dim1 :: "tensor3 \<Rightarrow> tensor3" where
  "softmax_dim1 t =
     map (\<lambda>m. map (\<lambda>row. map (\<lambda>j. exp (row ! j) / (\<Sum>r\<leftarrow>m. exp (r ! j)))
                                [0..<length row]) m) t"

text \<open>\<^verbatim>\<open>log_softmax(t, dim=2)\<close>: over the last axis.\<close>

definition log_softmax :: "vec \<Rightarrow> vec" where
  "log_softmax v = map (\<lambda>x. x - ln (\<Sum>y\<leftarrow>v. exp y)) v"

definition log_softmax_dim2 :: "tensor3 \<Rightarrow> tensor3" where
  "log_softmax_dim2 t = map (map log_softmax) t"

text \<open>\<^verbatim>\<open>t.max(dim=2)\<close> returns the maximal values and their indices; the index is that
  of the first maximal entry.\<close>

definition argmax :: "vec \<Rightarrow> int" where
  "argmax v = int (length (takeWhile (\<lambda>x. x \<noteq> Max (set v)) v))"

definition max_dim2 :: "tensor3 \<Rightarrow> mat \<times> index2" where
  "max_dim2 t = (map (map (\<lambda>v. Max (set v))) t, map (map argmax) t)"

text \<open>\<^verbatim>\<open>torch.cat(ts, dim=1)\<close> of a non-empty list of tensors with the same number of
  rows; the caller raises on the empty list.\<close>

definition cat_dim1 :: "'a list list list \<Rightarrow> 'a list list" where
  "cat_dim1 ts = map (\<lambda>b. concat (map (\<lambda>t. t ! b) ts)) [0..<length (hd ts)]"

text \<open>\<^verbatim>\<open>t.squeeze(1)\<close> of a tensor whose axis 1 has size 1, and \<^verbatim>\<open>t.unsqueeze(1)\<close>.\<close>

definition squeeze1 :: "'a list list list \<Rightarrow> 'a list list" where
  "squeeze1 t = map concat t"

definition unsqueeze1 :: "'a list list \<Rightarrow> 'a list list list" where
  "unsqueeze1 t = map (\<lambda>v. [v]) t"

text \<open>\<^verbatim>\<open>t.sum(0)\<close> of a tensor of shape \<open>(D, B, H)\<close> with \<open>D \<ge> 1\<close>.\<close>

fun sum_dim0 :: "tensor3 \<Rightarrow> mat" where
  "sum_dim0 [] = []"
| "sum_dim0 (x # xs) = fold (\<lambda>a acc. map2 (map2 (+)) acc a) xs x"

section \<open>The layers of \<^verbatim>\<open>torch.nn\<close>\<close>

text \<open>\<^verbatim>\<open>Embedding\<close>: the weight has one row for each index of the vocabulary. An index
  that is negative or not below the number of rows raises.\<close>

definition Embedding_forward :: "mat \<Rightarrow> index2 \<Rightarrow> error + tensor3" where
  "Embedding_forward weight inputs =
     (if list_all (list_all (\<lambda>i. 0 \<le> i \<and> i < int (length weight))) inputs
      then Inr (map (map (\<lambda>i. weight ! nat i)) inputs)
      else Inl IndexOutOfRange)"

text \<open>\<^verbatim>\<open>Linear\<close>: the weight has shape \<open>(out_features, in_features)\<close>.\<close>

record Linear =
  weight :: mat
  bias :: vec

definition Linear_forward :: "Linear \<Rightarrow> vec \<Rightarrow> vec" where
  "Linear_forward l x = map2 (\<lambda>row b. dot row x + b) (weight l) (bias l)"

text \<open>\<^verbatim>\<open>Linear(bias=False)\<close>.\<close>

definition Linear_nobias_forward :: "mat \<Rightarrow> vec \<Rightarrow> vec" where
  "Linear_nobias_forward w x = map (\<lambda>row. dot row x) w"

text \<open>\<^verbatim>\<open>LSTM\<close>, one layer and one direction: the gates are the rows of the weights in the
  order input, forget, cell, output.\<close>

record LSTM =
  hidden_size :: nat
  weight_ih :: mat
  weight_hh :: mat
  bias_ih :: vec
  bias_hh :: vec

definition sigmoid :: "real \<Rightarrow> real" where
  "sigmoid x = 1 / (1 + exp (- x))"

definition lstm_cell :: "LSTM \<Rightarrow> vec \<Rightarrow> vec \<times> vec \<Rightarrow> vec \<times> vec" where
  "lstm_cell p x hc =
     (let H = hidden_size p;
          gates = map2 (+) (Linear_forward \<lparr>weight = weight_ih p, bias = bias_ih p\<rparr> x)
                           (Linear_forward \<lparr>weight = weight_hh p, bias = bias_hh p\<rparr> (fst hc));
          i_gate = map sigmoid (take H gates);
          f_gate = map sigmoid (take H (drop H gates));
          g_gate = map tanh (take H (drop (2 * H) gates));
          o_gate = map sigmoid (take H (drop (3 * H) gates));
          c' = map2 (+) (map2 (*) f_gate (snd hc)) (map2 (*) i_gate g_gate);
          h' = map2 (*) o_gate (map tanh c')
      in (h', c'))"

text \<open>One batch item: the outputs of all steps and the state after the last one.\<close>

fun lstm_seq :: "LSTM \<Rightarrow> vec list \<Rightarrow> vec \<times> vec \<Rightarrow> vec list \<times> (vec \<times> vec)" where
  "lstm_seq p [] hc = ([], hc)"
| "lstm_seq p (x # xs) hc =
     (let hc' = lstm_cell p x hc;
          r = lstm_seq p xs hc'
      in (fst hc' # fst r, snd r))"

text \<open>\<^verbatim>\<open>LSTM(batch_first=True, num_layers=1)\<close> called with an initial state of shape
  \<open>(1, B, H)\<close>.\<close>

definition LSTM_forward :: "LSTM \<Rightarrow> tensor3 \<Rightarrow> hidden \<Rightarrow> tensor3 \<times> hidden" where
  "LSTM_forward p inputs hidden_state =
     (let rs = map2 (\<lambda>xs hc. lstm_seq p xs hc)
                 inputs (zip (last (fst hidden_state)) (last (snd hidden_state)))
      in (map fst rs, ([map (fst \<circ> snd) rs], [map (snd \<circ> snd) rs])))"

text \<open>\<^verbatim>\<open>LSTM(batch_first=True, bidirectional=True, num_layers=1)\<close> called without an
  initial state: both directions start from zeros, the backward direction reads the
  sequence from its end, and the output at a position joins the two directions.\<close>

record BiLSTM =
  forward_dir :: LSTM
  reverse_dir :: LSTM

definition BiLSTM_forward :: "BiLSTM \<Rightarrow> tensor3 \<Rightarrow> tensor3 \<times> hidden" where
  "BiLSTM_forward p inputs =
     (let zf = replicate (hidden_size (forward_dir p)) 0;
          zr = replicate (hidden_size (reverse_dir p)) 0;
          fw = map (\<lambda>xs. lstm_seq (forward_dir p) xs (zf, zf)) inputs;
          bw = map (\<lambda>xs. lstm_seq (reverse_dir p) (rev xs) (zr, zr)) inputs;
          outputs = map2 (\<lambda>f b. map2 (@) (fst f) (rev (fst b))) fw bw
      in (outputs,
          ([map (fst \<circ> snd) fw, map (fst \<circ> snd) bw],
           [map (snd \<circ> snd) fw, map (snd \<circ> snd) bw])))"

section \<open>Attention\<close>

record Attention =
  attn_layer :: mat
  combine_layer :: Linear

text \<open>The attention weights and the context of \<^verbatim>\<open>Attention.forward\<close>, lines 263 to 271.\<close>

definition attn_scores :: "Attention \<Rightarrow> hidden \<Rightarrow> tensor3 \<Rightarrow> tensor3" where
  "attn_scores att last_hidden encoder_outputs =
     (let last_hidden = unsqueeze1 (last (fst last_hidden));
          last_hidden = map (map (Linear_nobias_forward (attn_layer att))) last_hidden;
          encoder_outputs_t = map transpose_mat encoder_outputs
      in bmm last_hidden encoder_outputs_t)"

definition attn_weights :: "Attention \<Rightarrow> hidden \<Rightarrow> tensor3 \<Rightarrow> tensor3" where
  "attn_weights att last_hidden encoder_outputs =
     softmax_dim1 (attn_scores att last_hidden encoder_outputs)"

definition attention_applied :: "Attention \<Rightarrow> hidden \<Rightarrow> tensor3 \<Rightarrow> tensor3" where
  "attention_applied att last_hidden encoder_outputs =
     bmm (attn_weights att last_hidden encoder_outputs) encoder_outputs"

definition Attention_forward ::
    "Attention \<Rightarrow> tensor3 \<Rightarrow> hidden \<Rightarrow> tensor3 \<Rightarrow> tensor3 \<times> tensor3" where
  "Attention_forward att decoder_output last_hidden encoder_outputs =
     (let merged = map2 (@) (squeeze1 decoder_output)
                       (squeeze1 (attention_applied att last_hidden encoder_outputs));
          output = map (map (map tanh))
                     (unsqueeze1 (map (Linear_forward (combine_layer att)) merged))
      in (output, attn_weights att last_hidden encoder_outputs))"

section \<open>Encoder and decoder\<close>

record Encoder =
  enc_embedding_layer :: mat
  enc_recurrent_layer :: BiLSTM

definition Encoder_forward :: "Encoder \<Rightarrow> index2 \<Rightarrow> error + tensor3 \<times> hidden" where
  "Encoder_forward enc inputs =
     (case Embedding_forward (enc_embedding_layer enc) inputs of
        Inl e \<Rightarrow> Inl e
      | Inr embedded_inputs \<Rightarrow>
          (let r = BiLSTM_forward (enc_recurrent_layer enc) embedded_inputs;
               encoder_outputs = fst r;
               hidden_states = snd r;
               hidden_states = ([sum_dim0 (fst hidden_states)],
                                [sum_dim0 (snd hidden_states)])
           in Inr (encoder_outputs, hidden_states)))"

record Decoder =
  dec_embedding_layer :: mat
  dec_recurrent_layer :: LSTM
  output_layer :: Linear
  attention_layer :: Attention

text \<open>The body of the loop of \<^verbatim>\<open>Decoder.forward\<close>; the state is the list of outputs and
  the hidden state.\<close>

definition decoder_step ::
    "Decoder \<Rightarrow> tensor3 \<Rightarrow> tensor3 \<Rightarrow> nat \<Rightarrow> tensor3 list \<times> hidden \<Rightarrow> tensor3 list \<times> hidden"
  where
  "decoder_step dec embedded_inputs encoder_outputs step s =
     (let r = LSTM_forward (dec_recurrent_layer dec)
                (unsqueeze1 (map (\<lambda>row. row ! step) embedded_inputs)) (snd s);
          hidden_state = snd r;
          step_output = fst (Attention_forward (attention_layer dec) (fst r)
                               hidden_state encoder_outputs)
      in (fst s @ [step_output], hidden_state))"

definition Decoder_forward ::
    "Decoder \<Rightarrow> index2 \<Rightarrow> tensor3 \<Rightarrow> hidden \<Rightarrow> error + tensor3 \<times> hidden" where
  "Decoder_forward dec inputs encoder_outputs hidden_state =
     (let sequence_len = size1 inputs in
      case Embedding_forward (dec_embedding_layer dec) inputs of
        Inl e \<Rightarrow> Inl e
      | Inr embedded_inputs \<Rightarrow>
          (let s = fold (decoder_step dec embedded_inputs encoder_outputs)
                     [0..<sequence_len] ([], hidden_state)
           in if fst s = [] then Inl CatEmptyList
              else Inr (map (map (Linear_forward (output_layer dec))) (cat_dim1 (fst s)),
                        snd s)))"

section \<open>The sequence to sequence model\<close>

record Seq2Seq =
  encoder :: Encoder
  decoder :: Decoder
  START_INDEX :: int
  END_INDEX :: int
  training :: bool

text \<open>\<^verbatim>\<open>Seq2Seq.decode_forced\<close>.\<close>

definition decode_forced ::
    "Seq2Seq \<Rightarrow> index2 \<Rightarrow> tensor3 \<Rightarrow> hidden \<Rightarrow> error + tensor3 \<times> index2" where
  "decode_forced m targets encoder_outputs encoder_hidden =
     (case Decoder_forward (decoder m) targets encoder_outputs encoder_hidden of
        Inl e \<Rightarrow> Inl e
      | Inr r \<Rightarrow>
          (let logits = fst r;
               scores = log_softmax_dim2 logits;
               preds = snd (max_dim2 logits)
           in Inr (scores, preds)))"

text \<open>\<^verbatim>\<open>Seq2Seq.decode_greedy\<close>. The state of its loop: the predictions so far (with the
  seed column), the list of the scores of each step, and the hidden state.\<close>

type_synonym greedy_state = "index2 \<times> tensor3 list \<times> hidden"

definition greedy_init :: "Seq2Seq \<Rightarrow> tensor3 \<Rightarrow> hidden \<Rightarrow> greedy_state" where
  "greedy_init m encoder_outputs encoder_hidden =
     (let batch_size = length encoder_outputs;
          preds = replicate batch_size [START_INDEX m];
          scores = [];
          hidden_state = encoder_hidden
      in (preds, scores, hidden_state))"

text \<open>Lines 118 to 129: one call of the decoder on the last column of the predictions.\<close>

definition greedy_step :: "Seq2Seq \<Rightarrow> tensor3 \<Rightarrow> greedy_state \<Rightarrow> error + greedy_state" where
  "greedy_step m encoder_outputs s =
     (let preds = fst s; scores = fst (snd s); hidden_state = snd (snd s) in
      case Decoder_forward (decoder m) (map (\<lambda>row. drop (length row - 1) row) preds)
             encoder_outputs hidden_state of
        Inl e \<Rightarrow> Inl e
      | Inr r \<Rightarrow>
          (let step_output = map (\<lambda>rows. drop (length rows - 1) rows) (fst r);
               hidden_state = snd r;
               step_scores = log_softmax_dim2 step_output;
               step_preds = snd (max_dim2 step_scores);
               preds = map2 (@) preds step_preds;
               scores = scores @ [step_scores]
           in Inr (preds, scores, hidden_state)))"

text \<open>Lines 131 to 133: the number of rows that hold the end token is the batch size.\<close>

definition all_finished :: "Seq2Seq \<Rightarrow> index2 \<Rightarrow> nat \<Rightarrow> bool" where
  "all_finished m preds batch_size =
     ((\<Sum>row\<leftarrow>preds. if (\<Sum>p\<leftarrow>row. if p = END_INDEX m then 1 else 0) > (0::nat)
                      then 1 else 0) = batch_size)"

text \<open>The loop \<^verbatim>\<open>for _ in range(max_len)\<close> with its \<^verbatim>\<open>break\<close>; the first argument counts
  the iterations that are left.\<close>

fun greedy_loop ::
    "Seq2Seq \<Rightarrow> tensor3 \<Rightarrow> nat \<Rightarrow> nat \<Rightarrow> greedy_state \<Rightarrow> error + greedy_state" where
  "greedy_loop m encoder_outputs batch_size 0 s = Inr s"
| "greedy_loop m encoder_outputs batch_size (Suc n) s =
     (case greedy_step m encoder_outputs s of
        Inl e \<Rightarrow> Inl e
      | Inr s' \<Rightarrow>
          if all_finished m (fst s') batch_size \<and> \<not> training m then Inr s'
          else greedy_loop m encoder_outputs batch_size n s')"

definition decode_greedy ::
    "Seq2Seq \<Rightarrow> tensor3 \<Rightarrow> hidden \<Rightarrow> int \<Rightarrow> error + tensor3 \<times> index2" where
  "decode_greedy m encoder_outputs encoder_hidden max_len =
     (let batch_size = length encoder_outputs in
      case greedy_loop m encoder_outputs batch_size (nat max_len)
             (greedy_init m encoder_outputs encoder_hidden) of
        Inl e \<Rightarrow> Inl e
      | Inr s \<Rightarrow>
          (let preds = fst s; scores = fst (snd s) in
           if scores = [] then Inl CatEmptyList
           else Inr (cat_dim1 scores,
                     map (\<lambda>row. take (size1 preds - 1) (drop 1 row)) preds)))"

text \<open>\<^verbatim>\<open>Seq2Seq.forward\<close>; \<open>None\<close> for the targets selects the greedy decoding.\<close>

definition forward ::
    "Seq2Seq \<Rightarrow> index2 \<Rightarrow> index2 option \<Rightarrow> int \<Rightarrow> error + tensor3 \<times> index2" where
  "forward m inputs targets max_len =
     (case Encoder_forward (encoder m) inputs of
        Inl e \<Rightarrow> Inl e
      | Inr r \<Rightarrow>
          (let encoder_outputs = fst r; encoder_hidden = snd r in
           case targets of
             None \<Rightarrow> decode_greedy m encoder_outputs encoder_hidden max_len
           | Some targets \<Rightarrow> decode_forced m targets encoder_outputs encoder_hidden))"

section \<open>The shapes that the constructors give\<close>

definition wf_Linear :: "nat \<Rightarrow> nat \<Rightarrow> Linear \<Rightarrow> bool" where
  "wf_Linear in_features out_features l =
     (shape2 out_features in_features (weight l) \<and> length (bias l) = out_features)"

definition wf_LSTM :: "nat \<Rightarrow> nat \<Rightarrow> LSTM \<Rightarrow> bool" where
  "wf_LSTM input_size H p =
     (hidden_size p = H \<and>
      shape2 (4 * H) input_size (weight_ih p) \<and> shape2 (4 * H) H (weight_hh p) \<and>
      length (bias_ih p) = 4 * H \<and> length (bias_hh p) = 4 * H)"

definition wf_Attention :: "nat \<Rightarrow> Attention \<Rightarrow> bool" where
  "wf_Attention H att =
     (shape2 (H * 2) H (attn_layer att) \<and> wf_Linear (H * 3) H (combine_layer att))"

definition wf_Encoder :: "nat \<Rightarrow> nat \<Rightarrow> nat \<Rightarrow> Encoder \<Rightarrow> bool" where
  "wf_Encoder input_size H vocab_size enc =
     (shape2 vocab_size input_size (enc_embedding_layer enc) \<and>
      wf_LSTM input_size H (forward_dir (enc_recurrent_layer enc)) \<and>
      wf_LSTM input_size H (reverse_dir (enc_recurrent_layer enc)))"

definition wf_Decoder :: "nat \<Rightarrow> nat \<Rightarrow> nat \<Rightarrow> Decoder \<Rightarrow> bool" where
  "wf_Decoder input_size H vocab_size dec =
     (shape2 vocab_size input_size (dec_embedding_layer dec) \<and>
      wf_LSTM input_size H (dec_recurrent_layer dec) \<and>
      wf_Linear H vocab_size (output_layer dec) \<and>
      wf_Attention H (attention_layer dec))"

text \<open>A model built by \<^verbatim>\<open>Seq2Seq.__init__\<close> from \<open>embedding_size\<close>, \<open>hidden_size\<close> and the
  two vocabulary sizes, with a start token of the target vocabulary.\<close>

definition wf_Seq2Seq :: "nat \<Rightarrow> nat \<Rightarrow> nat \<Rightarrow> nat \<Rightarrow> Seq2Seq \<Rightarrow> bool" where
  "wf_Seq2Seq embedding_size H source_vocab_size target_vocab_size m =
     (wf_Encoder embedding_size H source_vocab_size (encoder m) \<and>
      wf_Decoder embedding_size H target_vocab_size (decoder m) \<and>
      0 \<le> START_INDEX m \<and> START_INDEX m < int target_vocab_size)"

text \<open>Every index of a token tensor is an index of a vocabulary of the given size.\<close>

definition in_range :: "nat \<Rightarrow> index2 \<Rightarrow> bool" where
  "in_range vocab_size t = list_all (list_all (\<lambda>i. 0 \<le> i \<and> i < int vocab_size)) t"

text \<open>The hidden state has one row for each of the \<open>B\<close> batch items.\<close>

definition hidden_ok :: "nat \<Rightarrow> hidden \<Rightarrow> bool" where
  "hidden_ok B h = (length (last (fst h)) = B \<and> length (last (snd h)) = B)"

text \<open>What holds of the state of the loop of \<^verbatim>\<open>decode_greedy\<close> after any number of
  iterations: the predictions have one more column than there are scores, they are indices
  of the target vocabulary, their first column is the start token, each entry of the
  scores is the scores of one step, and the prediction of a step is the argmax of its
  scores.\<close>

definition greedy_inv :: "Seq2Seq \<Rightarrow> nat \<Rightarrow> nat \<Rightarrow> greedy_state \<Rightarrow> bool" where
  "greedy_inv m B V s =
     (shape2 B (Suc (length (fst (snd s)))) (fst s)
      \<and> in_range V (fst s)
      \<and> list_all (\<lambda>row. hd row = START_INDEX m) (fst s)
      \<and> list_all (shape3 B 1 V) (fst (snd s))
      \<and> hidden_ok B (snd (snd s))
      \<and> (\<forall>i<B. \<forall>t<length (fst (snd s)).
            fst s ! i ! Suc t = argmax (hd (fst (snd s) ! t ! i))))"

section \<open>A small model for the concrete instances\<close>

text \<open>\<open>embedding_size = 1\<close>, \<open>hidden_size = 1\<close>, a source vocabulary of 2 tokens and a target
  vocabulary of 3 tokens, in evaluation mode.\<close>

definition tiny_lstm :: LSTM where
  "tiny_lstm = \<lparr>hidden_size = 1, weight_ih = [[1], [1], [1], [1]],
                weight_hh = [[0], [0], [0], [0]],
                bias_ih = [0, 0, 0, 0], bias_hh = [0, 0, 0, 0]\<rparr>"

definition tiny_attention :: Attention where
  "tiny_attention = \<lparr>attn_layer = [[1], [1]],
                     combine_layer = \<lparr>weight = [[1, 0, 0]], bias = [0]\<rparr>\<rparr>"

definition tiny_model :: Seq2Seq where
  "tiny_model =
     \<lparr>encoder = \<lparr>enc_embedding_layer = [[0], [1]],
                 enc_recurrent_layer = \<lparr>forward_dir = tiny_lstm, reverse_dir = tiny_lstm\<rparr>\<rparr>,
      decoder = \<lparr>dec_embedding_layer = [[0], [1], [2]],
                 dec_recurrent_layer = tiny_lstm,
                 output_layer = \<lparr>weight = [[1], [0], [0]], bias = [0, 1, 0]\<rparr>,
                 attention_layer = tiny_attention\<rparr>,
      START_INDEX = 1, END_INDEX = 2, training = False\<rparr>"

lemma wf_tiny_model: "wf_Seq2Seq 1 1 2 3 tiny_model"
  by (simp add: wf_Seq2Seq_def wf_Encoder_def wf_Decoder_def wf_LSTM_def wf_Linear_def
      wf_Attention_def shape2_def tiny_model_def tiny_lstm_def tiny_attention_def)

section \<open>Attention: the softmax over the axis of size 1\<close>

lemma softmax_dim1_single:
  "softmax_dim1 (map (\<lambda>x. [f x]) xs) = map (\<lambda>x. [replicate (length (f x)) 1]) xs"
  by (simp add: softmax_dim1_def map_replicate_const)

lemma matmul_single:
  "matmul [v] b = [map (\<lambda>j. dot v (map (\<lambda>r. r ! j) b)) [0..<size1 b]]"
  by (simp add: matmul_def)

lemma map2_snd: "length xs = length ys \<Longrightarrow> map2 (\<lambda>x y. g y) xs ys = map g ys"
  by (induction xs ys rule: list_induct2) auto

lemma map2_fst: "length xs = length ys \<Longrightarrow> map2 (\<lambda>x y. g x) xs ys = map g xs"
  by (induction xs ys rule: list_induct2) auto

lemma attn_scores_rows:
  "attn_scores att h enc =
     map2 (\<lambda>v e. [map (\<lambda>j. dot (Linear_nobias_forward (attn_layer att) v)
                               (map (\<lambda>r. r ! j) (transpose_mat e)))
                     [0..<size1 (transpose_mat e)]])
          (last (fst h)) enc"
  by (simp add: attn_scores_def bmm_def unsqueeze1_def matmul_single zip_map1 zip_map2
      split_def o_def)

lemma attn_weights_ones:
  "attn_weights att h enc =
     map2 (\<lambda>v e. [replicate (size1 (transpose_mat e)) 1]) (last (fst h)) enc"
  unfolding attn_weights_def attn_scores_rows split_def
  by (simp add: softmax_dim1_single)

lemma size1_transpose_mat:
  "size1 (transpose_mat e) = (if size1 e = 0 then 0 else length e)"
  by (cases "size1 e") (simp_all add: transpose_mat_def size1_def upt_conv_Cons del: upt_Suc)

lemma dot_ones: "length ys = n \<Longrightarrow> dot (replicate n 1) ys = sum_list ys"
  unfolding dot_def by (induction ys arbitrary: n) auto

lemma matmul_ones:
  "matmul [replicate (size1 (transpose_mat e)) 1] e =
     [map (\<lambda>d. \<Sum>row\<leftarrow>e. row ! d) [0..<size1 e]]"
  by (simp add: matmul_single size1_transpose_mat dot_ones)

lemma attention_applied_sum:
  assumes "length (last (fst h)) = length enc"
  shows "attention_applied att h enc =
           map (\<lambda>e. [map (\<lambda>d. \<Sum>row\<leftarrow>e. row ! d) [0..<size1 e]]) enc"
proof -
  have w: "attn_weights att h enc = map (\<lambda>e. [replicate (size1 (transpose_mat e)) 1]) enc"
    unfolding attn_weights_ones using assms by (rule map2_snd)
  show ?thesis
    unfolding attention_applied_def w bmm_def
    by (simp add: zip_map1 zip_same_conv_map matmul_ones)
qed

lemma attn_weights_all_one:
  "list_all (list_all (list_all (\<lambda>w. w = 1))) (attn_weights att h enc)"
  by (simp add: attn_weights_ones list_all_iff split_def)

text \<open>
  C9. Every entry of the attention weights that \<^verbatim>\<open>Attention.forward\<close> returns is 1, for
  every decoder output, hidden state and encoder output. When the hidden state has one
  row for each batch item, the context \<open>attention_applied\<close> is, for each batch item, the
  sum of the encoder outputs over the source positions, and it is the same for every
  hidden state and every attention projection.
\<close>

theorem attention_weights_all_one:
  assumes "length (last (fst last_hidden)) = length encoder_outputs"
    and "length (last (fst last_hidden')) = length encoder_outputs"
  shows "list_all (list_all (list_all (\<lambda>w. w = 1)))
           (snd (Attention_forward att decoder_output last_hidden encoder_outputs))
       \<and> attention_applied att last_hidden encoder_outputs =
           map (\<lambda>e. [map (\<lambda>d. \<Sum>row\<leftarrow>e. row ! d) [0..<size1 e]]) encoder_outputs
       \<and> attention_applied att' last_hidden' encoder_outputs =
           attention_applied att last_hidden encoder_outputs"
  using assms
  by (simp add: Attention_forward_def Let_def attn_weights_all_one attention_applied_sum)

theorem attention_weights_all_one_witness:
  "length (last (fst ([[[1]]], [[[1]]]))) = length [[[1, 2], [3, 4 :: real]]]
   \<and> length (last (fst ([[[5]]], [[[0]]]))) = length [[[1, 2], [3, 4 :: real]]]
   \<and> list_all (list_all (list_all (\<lambda>w. w = 1)))
       (snd (Attention_forward tiny_attention [[[1]]] ([[[1]]], [[[1]]])
               [[[1, 2], [3, 4]]]))
   \<and> attention_applied tiny_attention ([[[1]]], [[[1]]]) [[[1, 2], [3, 4]]] = [[[4, 6]]]
   \<and> attention_applied \<lparr>attn_layer = [[7], [9]], combine_layer = \<lparr>weight = [], bias = []\<rparr>\<rparr>
       ([[[5]]], [[[0]]]) [[[1, 2], [3, 4]]] =
     attention_applied tiny_attention ([[[1]]], [[[1]]]) [[[1, 2], [3, 4]]]"
  using attention_weights_all_one [of "([[[1]]], [[[1]]])" "[[[1, 2], [3, 4]]]"
      "([[[5]]], [[[0]]])" tiny_attention "[[[1]]]"
      "\<lparr>attn_layer = [[7], [9]], combine_layer = \<lparr>weight = [], bias = []\<rparr>\<rparr>"]
  by (simp add: size1_def)

text \<open>
  C1. For one batch item and two source positions the attention weights that
  \<^verbatim>\<open>Attention.forward\<close> returns are \<open>[1, 1]\<close>, whatever the parameters, the decoder output
  and the hidden vector are: their sum over the source positions is 2, not 1.
\<close>

theorem attention_weights_sum_two_positions:
  "snd (Attention_forward att decoder_output ([[h]], [[c]]) [[[1, 2], [3, 4]]]) = [[[1, 1]]]
   \<and> map (map sum_list)
       (snd (Attention_forward att decoder_output ([[h]], [[c]]) [[[1, 2], [3, 4]]])) = [[2]]"
proof -
  have n: "size1 (transpose_mat [[1, 2], [3, 4 :: real]]) = 2"
    unfolding size1_transpose_mat by (simp add: size1_def)
  show ?thesis
    by (simp add: Attention_forward_def Let_def attn_weights_ones n eval_nat_numeral)
qed

section \<open>Encoder: shapes\<close>

lemma length_Linear_forward:
  "length (Linear_forward l x) = min (length (weight l)) (length (bias l))"
  by (simp add: Linear_forward_def)

lemma lstm_cell_lengths:
  assumes "wf_LSTM E H p" and "length (snd hc) = H"
  shows "length (fst (lstm_cell p x hc)) = H \<and> length (snd (lstm_cell p x hc)) = H"
  using assms
  by (simp add: lstm_cell_def Let_def wf_LSTM_def shape2_def length_Linear_forward)

lemma lstm_seq_lengths:
  assumes "wf_LSTM E H p" and "length (fst hc) = H" and "length (snd hc) = H"
  shows "length (fst (lstm_seq p xs hc)) = length xs
       \<and> list_all (\<lambda>v. length v = H) (fst (lstm_seq p xs hc))
       \<and> length (fst (snd (lstm_seq p xs hc))) = H
       \<and> length (snd (snd (lstm_seq p xs hc))) = H"
  using assms(2,3)
proof (induction xs arbitrary: hc)
  case Nil
  then show ?case by simp
next
  case (Cons x xs)
  have c: "length (fst (lstm_cell p x hc)) = H \<and> length (snd (lstm_cell p x hc)) = H"
    using lstm_cell_lengths[OF assms(1)] Cons.prems by simp
  from Cons.IH[of "lstm_cell p x hc"] c show ?case by (simp add: Let_def)
qed

lemma sum_dim0_pair: "sum_dim0 [a, b] = map2 (map2 (+)) a b"
  by simp

lemma bi_row_shape:
  assumes "wf_LSTM E H pf" and "wf_LSTM E H pr"
  shows "shape2 (length xs) (2 * H)
           (map2 (@) (fst (lstm_seq pf xs (replicate H 0, replicate H 0)))
                     (rev (fst (lstm_seq pr (rev xs) (replicate H 0, replicate H 0)))))"
proof -
  let ?A = "fst (lstm_seq pf xs (replicate H 0, replicate H 0))"
  let ?B = "fst (lstm_seq pr (rev xs) (replicate H 0, replicate H 0))"
  have a: "length ?A = length xs" "\<forall>v\<in>set ?A. length v = H"
    using lstm_seq_lengths[OF assms(1), of "(replicate H 0, replicate H 0)" xs]
    by (simp_all add: list_all_iff)
  have b: "length ?B = length xs" "\<forall>v\<in>set ?B. length v = H"
    using lstm_seq_lengths[OF assms(2), of "(replicate H 0, replicate H 0)" "rev xs"]
    by (simp_all add: list_all_iff)
  have "\<forall>q\<in>set (zip ?A (rev ?B)). length (fst q @ snd q) = 2 * H"
  proof
    fix q assume q: "q \<in> set (zip ?A (rev ?B))"
    obtain u v where uv: "q = (u, v)" by (cases q)
    have "u \<in> set ?A" using q unfolding uv by (rule set_zip_leftD)
    moreover have "v \<in> set (rev ?B)" using q unfolding uv by (rule set_zip_rightD)
    ultimately have "fst q \<in> set ?A" and "snd q \<in> set ?B" by (simp_all add: uv)
    then show "length (fst q @ snd q) = 2 * H" using a(2) b(2) by simp
  qed
  then show ?thesis using a(1) b(1)
    by (simp add: shape2_def list_all_iff split_def)
qed

lemma BiLSTM_forward_shapes:
  assumes "wf_LSTM E H (forward_dir p)" and "wf_LSTM E H (reverse_dir p)"
    and "shape2 B L inputs"
  shows "shape3 B L (2 * H) (fst (BiLSTM_forward p inputs))"
    and "shape3 2 B H (fst (snd (BiLSTM_forward p inputs)))"
    and "shape3 2 B H (snd (snd (BiLSTM_forward p inputs)))"
proof -
  have hf: "hidden_size (forward_dir p) = H" and hr: "hidden_size (reverse_dir p) = H"
    using assms(1,2) by (simp_all add: wf_LSTM_def)
  note f = lstm_seq_lengths[OF assms(1), of "(replicate H 0, replicate H 0)", simplified]
  note r = lstm_seq_lengths[OF assms(2), of "(replicate H 0, replicate H 0)", simplified]
  have len: "length inputs = B" and rows: "\<forall>xs\<in>set inputs. length xs = L"
    using assms(3) by (simp_all add: shape2_def list_all_iff)
  have out: "fst (BiLSTM_forward p inputs) =
      map (\<lambda>xs. map2 (@) (fst (lstm_seq (forward_dir p) xs (replicate H 0, replicate H 0)))
             (rev (fst (lstm_seq (reverse_dir p) (rev xs) (replicate H 0, replicate H 0)))))
        inputs"
    by (simp add: BiLSTM_forward_def Let_def hf hr zip_map1 zip_map2 zip_same_conv_map
        split_def o_def)
  show "shape3 B L (2 * H) (fst (BiLSTM_forward p inputs))"
    unfolding out shape3_def using len rows bi_row_shape[OF assms(1,2)]
    by (auto simp add: list_all_iff)
  show "shape3 2 B H (fst (snd (BiLSTM_forward p inputs)))"
    using len f r
    by (simp add: BiLSTM_forward_def Let_def shape3_def shape2_def hf hr list_all_iff)
  show "shape3 2 B H (snd (snd (BiLSTM_forward p inputs)))"
    using len f r
    by (simp add: BiLSTM_forward_def Let_def shape3_def shape2_def hf hr list_all_iff)
qed

lemma shape2_map2_plus:
  assumes "shape2 B H a" and "shape2 B H b"
  shows "shape2 B H (map2 (map2 (+)) a b)"
  using assms by (auto simp add: shape2_def list_all_iff set_zip)

lemma Embedding_forward_in_range:
  "in_range (length w) inputs \<Longrightarrow>
     Embedding_forward w inputs = Inr (map (map (\<lambda>i. w ! nat i)) inputs)"
  by (simp add: Embedding_forward_def in_range_def)

lemma Embedding_forward_out_of_range:
  "\<not> in_range (length w) inputs \<Longrightarrow> Embedding_forward w inputs = Inl IndexOutOfRange"
  by (simp add: Embedding_forward_def in_range_def)

lemma shape2_map_map: "shape2 B L t \<Longrightarrow> shape2 B L (map (map f) t)"
  by (simp add: shape2_def list_all_iff)

text \<open>
  C6. For a source tensor of shape \<open>(B, L)\<close> whose indices are in the source vocabulary,
  \<^verbatim>\<open>Encoder.forward\<close> returns the outputs of the bidirectional LSTM, of shape
  \<open>(B, L, 2 * H)\<close>, and a pair of hidden and cell state, each of shape \<open>(1, B, H)\<close> and
  each the sum, entry by entry, of the final states \<open>hn ! 0\<close> and \<open>hn ! 1\<close> (\<open>cn ! 0\<close> and
  \<open>cn ! 1\<close>) of the two directions, which have shape \<open>(2, B, H)\<close>.
\<close>

theorem Encoder_forward_shapes:
  assumes "wf_Encoder E H V enc" and "shape2 B L inputs" and "in_range V inputs"
  shows "\<exists>embedded outs hn cn.
           Embedding_forward (enc_embedding_layer enc) inputs = Inr embedded
         \<and> BiLSTM_forward (enc_recurrent_layer enc) embedded = (outs, (hn, cn))
         \<and> shape3 2 B H hn \<and> shape3 2 B H cn
         \<and> Encoder_forward enc inputs =
             Inr (outs, ([map2 (map2 (+)) (hn ! 0) (hn ! 1)],
                         [map2 (map2 (+)) (cn ! 0) (cn ! 1)]))
         \<and> shape3 B L (2 * H) outs
         \<and> shape3 1 B H [map2 (map2 (+)) (hn ! 0) (hn ! 1)]
         \<and> shape3 1 B H [map2 (map2 (+)) (cn ! 0) (cn ! 1)]"
proof -
  let ?emb = "map (map (\<lambda>i. enc_embedding_layer enc ! nat i)) inputs"
  have V: "length (enc_embedding_layer enc) = V"
    and wf: "wf_LSTM E H (forward_dir (enc_recurrent_layer enc))"
            "wf_LSTM E H (reverse_dir (enc_recurrent_layer enc))"
    using assms(1) by (simp_all add: wf_Encoder_def shape2_def)
  have e: "Embedding_forward (enc_embedding_layer enc) inputs = Inr ?emb"
    using assms(3) V by (simp add: Embedding_forward_in_range)
  have se: "shape2 B L ?emb" using assms(2) by (rule shape2_map_map)
  obtain outs hn cn where r: "BiLSTM_forward (enc_recurrent_layer enc) ?emb = (outs, (hn, cn))"
    by (metis prod.exhaust)
  note sh = BiLSTM_forward_shapes[OF wf se, unfolded r, simplified]
  have two: "hn = [hn ! 0, hn ! 1]" "cn = [cn ! 0, cn ! 1]"
    using r by (auto simp add: BiLSTM_forward_def Let_def)
  have s0: "sum_dim0 hn = map2 (map2 (+)) (hn ! 0) (hn ! 1)"
    by (subst two(1)) (simp only: sum_dim0_pair)
  have s1: "sum_dim0 cn = map2 (map2 (+)) (cn ! 0) (cn ! 1)"
    by (subst two(2)) (simp only: sum_dim0_pair)
  have hsh: "shape2 B H (hn ! 0)" "shape2 B H (hn ! 1)" "shape2 B H (cn ! 0)" "shape2 B H (cn ! 1)"
    using sh(2,3) by (simp_all add: shape3_def list_all_length)
  have f: "Encoder_forward enc inputs =
             Inr (outs, ([map2 (map2 (+)) (hn ! 0) (hn ! 1)],
                         [map2 (map2 (+)) (cn ! 0) (cn ! 1)]))"
    by (simp add: Encoder_forward_def e r Let_def s0 s1)
  show ?thesis
    using e r sh f shape2_map2_plus[OF hsh(1,2)] shape2_map2_plus[OF hsh(3,4)]
    by (simp add: shape3_def)
qed

theorem Encoder_forward_shapes_witness:
  "wf_Encoder 1 1 2 (encoder tiny_model) \<and> shape2 1 2 [[0, 1 :: int]] \<and> in_range 2 [[0, 1]]
   \<and> (\<exists>embedded outs hn cn.
           Embedding_forward (enc_embedding_layer (encoder tiny_model)) [[0, 1]] = Inr embedded
         \<and> BiLSTM_forward (enc_recurrent_layer (encoder tiny_model)) embedded = (outs, (hn, cn))
         \<and> shape3 2 1 1 hn \<and> shape3 2 1 1 cn
         \<and> Encoder_forward (encoder tiny_model) [[0, 1]] =
             Inr (outs, ([map2 (map2 (+)) (hn ! 0) (hn ! 1)],
                         [map2 (map2 (+)) (cn ! 0) (cn ! 1)]))
         \<and> shape3 1 2 2 outs
         \<and> shape3 1 1 1 [map2 (map2 (+)) (hn ! 0) (hn ! 1)]
         \<and> shape3 1 1 1 [map2 (map2 (+)) (cn ! 0) (cn ! 1)])"
proof -
  have a: "wf_Encoder 1 1 2 (encoder tiny_model)"
    using wf_tiny_model by (simp add: wf_Seq2Seq_def)
  have b: "shape2 1 2 [[0, 1 :: int]]" by (simp add: shape2_def)
  have c: "in_range 2 [[0, 1]]" by (simp add: in_range_def)
  from Encoder_forward_shapes[OF a b c] a b c show ?thesis by simp
qed

section \<open>Decoder and teacher forcing\<close>


lemma LSTM_forward_unit:
  assumes "length xs = B" and "hidden_ok B h"
  shows "shape2 B 1 (fst (LSTM_forward p (unsqueeze1 xs) h))"
    and "hidden_ok B (snd (LSTM_forward p (unsqueeze1 xs) h))"
  using assms
  by (simp_all add: LSTM_forward_def Let_def unsqueeze1_def hidden_ok_def shape2_def
      list_all_iff split_def zip_map1)

lemma length_attention_applied:
  "length (last (fst h)) = length enc \<Longrightarrow> length (attention_applied att h enc) = length enc"
  by (simp add: attention_applied_sum)

lemma Attention_forward_unit:
  assumes "length decoder_output = B" and "length (last (fst h)) = B" and "length enc = B"
  shows "shape2 B 1 (fst (Attention_forward att decoder_output h enc))"
  using assms
  by (simp add: Attention_forward_def Let_def unsqueeze1_def squeeze1_def shape2_def
      list_all_iff length_attention_applied)

lemma decoder_step_inv:
  assumes "length embedded = B" and "length enc = B"
    and "list_all (shape2 B 1) (fst s)" and "hidden_ok B (snd s)"
  shows "list_all (shape2 B 1) (fst (decoder_step dec embedded enc step s))"
    and "hidden_ok B (snd (decoder_step dec embedded enc step s))"
    and "length (fst (decoder_step dec embedded enc step s)) = Suc (length (fst s))"
proof -
  let ?r = "LSTM_forward (dec_recurrent_layer dec)
              (unsqueeze1 (map (\<lambda>row. row ! step) embedded)) (snd s)"
  have l: "shape2 B 1 (fst ?r)" "hidden_ok B (snd ?r)"
    using LSTM_forward_unit[of "map (\<lambda>row. row ! step) embedded" B "snd s"] assms(1,4)
    by simp_all
  have a: "shape2 B 1 (fst (Attention_forward (attention_layer dec) (fst ?r) (snd ?r) enc))"
    using l assms(2) by (intro Attention_forward_unit) (simp_all add: shape2_def hidden_ok_def)
  show "list_all (shape2 B 1) (fst (decoder_step dec embedded enc step s))"
    using a assms(3) by (simp add: decoder_step_def Let_def)
  show "hidden_ok B (snd (decoder_step dec embedded enc step s))"
    using l(2) by (simp add: decoder_step_def Let_def)
  show "length (fst (decoder_step dec embedded enc step s)) = Suc (length (fst s))"
    by (simp add: decoder_step_def Let_def)
qed

lemma decoder_fold_inv:
  assumes "length embedded = B" and "length enc = B"
  shows "list_all (shape2 B 1) (fst s) \<Longrightarrow> hidden_ok B (snd s) \<Longrightarrow>
         list_all (shape2 B 1) (fst (fold (decoder_step dec embedded enc) steps s))
       \<and> hidden_ok B (snd (fold (decoder_step dec embedded enc) steps s))
       \<and> length (fst (fold (decoder_step dec embedded enc) steps s)) =
           length (fst s) + length steps"
proof (induction steps arbitrary: s)
  case Nil
  then show ?case by simp
next
  case (Cons a steps)
  note d = decoder_step_inv[OF assms Cons.prems, of dec a]
  from Cons.IH[OF d(1,2)] d(3) show ?case by simp
qed

lemma concat_unit_rows:
  assumes "list_all (shape2 B 1) ts" and "b < B"
  shows "concat (map (\<lambda>t. t ! b) ts) = map (\<lambda>t. hd (t ! b)) ts"
  using assms(1)
proof (induction ts)
  case Nil
  then show ?case by simp
next
  case (Cons t ts)
  from Cons.prems have "shape2 B 1 t" by simp
  then have "length (t ! b) = 1" using assms(2) by (simp add: shape2_def list_all_length)
  then have "t ! b = [hd (t ! b)]" by (cases "t ! b") simp_all
  then show ?case using Cons by simp
qed

lemma cat_dim1_unit_rows:
  assumes "list_all (shape2 B 1) ts" and "ts \<noteq> []"
  shows "cat_dim1 ts = map (\<lambda>b. map (\<lambda>t. hd (t ! b)) ts) [0..<B]"
proof -
  have "length (hd ts) = B" using assms by (cases ts) (simp_all add: shape2_def)
  then show ?thesis
    using concat_unit_rows[OF assms(1)] by (simp add: cat_dim1_def)
qed

lemma shape2_cat_dim1:
  assumes "list_all (shape2 B 1) ts" and "ts \<noteq> []"
  shows "shape2 B (length ts) (cat_dim1 ts)"
  by (simp add: cat_dim1_unit_rows[OF assms] shape2_def list_all_iff)

lemma length_output_layer:
  "wf_Linear H V l \<Longrightarrow> length (Linear_forward l x) = V"
  by (simp add: wf_Linear_def shape2_def length_Linear_forward)

lemma Decoder_forward_ok:
  assumes wf: "wf_Decoder E H V dec" and sh: "shape2 B T inputs" and B: "0 < B" and T: "0 < T"
    and rng: "in_range V inputs" and enc: "length enc = B" and hid: "hidden_ok B h"
  shows "\<exists>logits h'. Decoder_forward dec inputs enc h = Inr (logits, h')
           \<and> shape3 B T V logits \<and> hidden_ok B h'"
proof -
  let ?emb = "map (map (\<lambda>i. dec_embedding_layer dec ! nat i)) inputs"
  let ?s = "fold (decoder_step dec ?emb enc) [0..<T] ([], h)"
  have V: "length (dec_embedding_layer dec) = V" and lo: "wf_Linear H V (output_layer dec)"
    using wf by (simp_all add: wf_Decoder_def shape2_def)
  have e: "Embedding_forward (dec_embedding_layer dec) inputs = Inr ?emb"
    using rng V by (simp add: Embedding_forward_in_range)
  have lenB: "length inputs = B" using sh by (simp add: shape2_def)
  have s1: "size1 inputs = T" using sh B by (cases inputs) (simp_all add: shape2_def size1_def)
  have inv: "list_all (shape2 B 1) (fst ?s)" "hidden_ok B (snd ?s)" "length (fst ?s) = T"
    using decoder_fold_inv[of ?emb B enc "([], h)" dec "[0..<T]"] lenB enc hid by simp_all
  have ne: "fst ?s \<noteq> []" using inv(3) T by auto
  have c: "shape2 B T (cat_dim1 (fst ?s))"
    using shape2_cat_dim1[OF inv(1) ne] inv(3) by simp
  have l: "shape3 B T V (map (map (Linear_forward (output_layer dec))) (cat_dim1 (fst ?s)))"
    using c by (simp add: shape3_def shape2_def list_all_iff length_output_layer[OF lo])
  have "Decoder_forward dec inputs enc h =
          Inr (map (map (Linear_forward (output_layer dec))) (cat_dim1 (fst ?s)), snd ?s)"
    using ne by (simp add: Decoder_forward_def Let_def e s1)
  then show ?thesis using l inv(2) by blast
qed

lemma Decoder_forward_Inr_cases:
  assumes "Decoder_forward dec inputs enc h = Inr r"
  shows "in_range (length (dec_embedding_layer dec)) inputs \<and> 0 < size1 inputs"
proof -
  have "in_range (length (dec_embedding_layer dec)) inputs"
    using assms
    by (simp add: Decoder_forward_def Let_def Embedding_forward_def in_range_def
        split: if_splits)
  moreover have "0 < size1 inputs" 
  proof (rule ccontr)
    assume "\<not> 0 < size1 inputs"
    then have "size1 inputs = 0" by simp
    then show False using assms
      by (simp add: Decoder_forward_def Let_def split: sum.splits)
  qed
  ultimately show ?thesis by simp
qed

lemma argmax_props:
  assumes "v \<noteq> []"
  shows "0 \<le> argmax v" and "argmax v < int (length v)"
    and "v ! nat (argmax v) = Max (set v)"
proof -
  let ?n = "length (takeWhile (\<lambda>x. x \<noteq> Max (set v)) v)"
  have "Max (set v) \<in> set v" using assms by (intro Max_in) simp_all
  then have "takeWhile (\<lambda>x. x \<noteq> Max (set v)) v \<noteq> v" by auto
  then have lt: "?n < length v"
    using length_takeWhile_le[of "\<lambda>x. x \<noteq> Max (set v)" v]
    by (metis le_neq_implies_less takeWhile_eq_take take_all_iff le_refl)
  show "0 \<le> argmax v" by (simp add: argmax_def)
  show "argmax v < int (length v)" using lt by (simp add: argmax_def)
  show "v ! nat (argmax v) = Max (set v)"
    using nth_length_takeWhile[OF lt] by (simp add: argmax_def)
qed

lemma length_log_softmax: "length (log_softmax v) = length v"
  by (simp add: log_softmax_def)

lemma shape3_log_softmax_dim2: "shape3 B T V t \<Longrightarrow> shape3 B T V (log_softmax_dim2 t)"
  by (simp add: shape3_def shape2_def list_all_iff log_softmax_dim2_def length_log_softmax)

lemma shape2_map_argmax: "shape3 B T V t \<Longrightarrow> shape2 B T (map (map argmax) t)"
  by (simp add: shape3_def shape2_def list_all_iff)

lemma shape3_nth:
  assumes "shape3 B T V t" and "i < B" and "j < T"
  shows "length (t ! i) = T" and "length (t ! i ! j) = V"
proof -
  have "shape2 T V (t ! i)" using assms(1,2) by (simp add: shape3_def list_all_length)
  then show "length (t ! i) = T" and "length (t ! i ! j) = V"
    using assms(3) by (simp_all add: shape2_def list_all_length)
qed

lemma in_range_positive:
  assumes "in_range V t" and "shape2 B T t" and "0 < B" and "0 < T"
  shows "0 < V"
proof -
  have "t ! 0 ! 0 \<in> set (t ! 0)" and "t ! 0 \<in> set t"
    using assms(2-4) by (simp_all add: shape2_def list_all_length)
  then have "0 \<le> t ! 0 ! 0 \<and> t ! 0 ! 0 < int V"
    using assms(1) by (simp add: in_range_def list_all_iff)
  then show ?thesis by simp
qed

lemma shape3_hidden_ok:
  "shape3 1 B H (fst h) \<Longrightarrow> shape3 1 B H (snd h) \<Longrightarrow> hidden_ok B h"
  by (cases "fst h"; cases "snd h") (simp_all add: hidden_ok_def shape3_def shape2_def)

text \<open>
  C2. \<^verbatim>\<open>Seq2Seq.decode_forced\<close> on targets of shape \<open>(B, T)\<close>: the call returns when
  \<open>T > 0\<close> and the targets are in the target vocabulary; whenever it returns scores and
  predictions, the scores have shape \<open>(B, T, V)\<close> and are the log-softmax over the last
  axis of the logits that the decoder returns, the predictions have shape \<open>(B, T)\<close>, and
  the prediction at \<open>(i, t)\<close> is an index of the vocabulary at which the logits at
  \<open>(i, t)\<close> take their maximum.
\<close>

theorem decode_forced_scores_predictions:
  assumes wf: "wf_Decoder E H V (decoder m)" and B: "0 < B"
    and sh: "shape2 B T targets"
    and enc: "shape3 B L (2 * H) encoder_outputs"
    and hid: "shape3 1 B H (fst encoder_hidden)" "shape3 1 B H (snd encoder_hidden)"
  shows "(0 < T \<and> in_range V targets \<longrightarrow>
            (\<exists>scores preds.
               decode_forced m targets encoder_outputs encoder_hidden = Inr (scores, preds)))
       \<and> (\<forall>scores preds.
            decode_forced m targets encoder_outputs encoder_hidden = Inr (scores, preds) \<longrightarrow>
            (\<exists>logits hidden_state.
               Decoder_forward (decoder m) targets encoder_outputs encoder_hidden
                 = Inr (logits, hidden_state)
             \<and> shape3 B T V logits
             \<and> scores = log_softmax_dim2 logits \<and> shape3 B T V scores
             \<and> shape2 B T preds
             \<and> (\<forall>i<B. \<forall>t<T. preds ! i ! t = argmax (logits ! i ! t)
                   \<and> 0 \<le> preds ! i ! t \<and> preds ! i ! t < int V
                   \<and> logits ! i ! t ! nat (preds ! i ! t) = Max (set (logits ! i ! t)))))"
proof -
  have lenc: "length encoder_outputs = B" using enc by (simp add: shape3_def)
  have hok: "hidden_ok B encoder_hidden" using hid by (rule shape3_hidden_ok)
  have V: "length (dec_embedding_layer (decoder m)) = V"
    using wf by (simp add: wf_Decoder_def shape2_def)
  have s1: "size1 targets = T" using sh B by (cases targets) (simp_all add: shape2_def size1_def)
  have ok: "\<exists>logits h'. Decoder_forward (decoder m) targets encoder_outputs encoder_hidden
                = Inr (logits, h') \<and> shape3 B T V logits \<and> hidden_ok B h'"
    if "0 < T" and "in_range V targets"
    using Decoder_forward_ok[OF wf sh B that lenc hok] .
  have part1: "0 < T \<and> in_range V targets \<longrightarrow>
            (\<exists>scores preds.
               decode_forced m targets encoder_outputs encoder_hidden = Inr (scores, preds))"
  proof
    assume a: "0 < T \<and> in_range V targets"
    from ok[of] a obtain logits h' where
      "Decoder_forward (decoder m) targets encoder_outputs encoder_hidden = Inr (logits, h')"
      by blast
    then show "\<exists>scores preds.
               decode_forced m targets encoder_outputs encoder_hidden = Inr (scores, preds)"
      by (simp add: decode_forced_def Let_def)
  qed
  have part2: "\<exists>logits hidden_state.
               Decoder_forward (decoder m) targets encoder_outputs encoder_hidden
                 = Inr (logits, hidden_state)
             \<and> shape3 B T V logits
             \<and> scores = log_softmax_dim2 logits \<and> shape3 B T V scores
             \<and> shape2 B T preds
             \<and> (\<forall>i<B. \<forall>t<T. preds ! i ! t = argmax (logits ! i ! t)
                   \<and> 0 \<le> preds ! i ! t \<and> preds ! i ! t < int V
                   \<and> logits ! i ! t ! nat (preds ! i ! t) = Max (set (logits ! i ! t)))"
    if r: "decode_forced m targets encoder_outputs encoder_hidden = Inr (scores, preds)"
    for scores preds
  proof -
    from r obtain q where q: "Decoder_forward (decoder m) targets encoder_outputs encoder_hidden
        = Inr q"
      by (cases "Decoder_forward (decoder m) targets encoder_outputs encoder_hidden")
        (simp_all add: decode_forced_def)
    from Decoder_forward_Inr_cases[OF q] have T: "0 < T" and rng: "in_range V targets"
      by (simp_all add: s1 V)
    from ok[OF T rng] q obtain logits h' where
      d: "Decoder_forward (decoder m) targets encoder_outputs encoder_hidden = Inr (logits, h')"
      and l: "shape3 B T V logits" by blast
    have Vp: "0 < V" using in_range_positive[OF rng sh B T] .
    have sc: "scores = log_softmax_dim2 logits" and pr: "preds = map (map argmax) logits"
      using r by (simp_all add: decode_forced_def d Let_def max_dim2_def)
    have idx: "preds ! i ! t = argmax (logits ! i ! t)
                   \<and> 0 \<le> preds ! i ! t \<and> preds ! i ! t < int V
                   \<and> logits ! i ! t ! nat (preds ! i ! t) = Max (set (logits ! i ! t))"
      if "i < B" and "t < T" for i t
    proof -
      note n = shape3_nth[OF l that]
      have len: "length logits = B" using l by (simp add: shape3_def)
      have e: "preds ! i ! t = argmax (logits ! i ! t)"
        using that n len by (simp add: pr)
      have ne: "logits ! i ! t \<noteq> []" using n(2) Vp by auto
      show ?thesis using argmax_props[OF ne] n(2) by (simp add: e)
    qed
    have all: "\<forall>i<B. \<forall>t<T. preds ! i ! t = argmax (logits ! i ! t)
                   \<and> 0 \<le> preds ! i ! t \<and> preds ! i ! t < int V
                   \<and> logits ! i ! t ! nat (preds ! i ! t) = Max (set (logits ! i ! t))"
      using idx by blast
    have s2: "shape2 B T preds" using shape2_map_argmax[OF l] by (simp add: pr)
    have s3: "shape3 B T V scores" using shape3_log_softmax_dim2[OF l] by (simp add: sc)
    show ?thesis
      by (rule exI[of _ logits], rule exI[of _ h']) (intro conjI d l sc s3 s2 all)
  qed
  show ?thesis using part1 part2 by blast
qed

theorem decode_forced_scores_predictions_witness:
  "wf_Decoder 1 1 3 (decoder tiny_model) \<and> (0 :: nat) < 1 \<and> shape2 1 2 [[1, 2 :: int]]
   \<and> shape3 1 2 (2 * 1) [[[1, 2], [3, 4 :: real]]]
   \<and> shape3 1 1 1 (fst ([[[0]]], [[[0 :: real]]]))
   \<and> shape3 1 1 1 (snd ([[[0 :: real]]], [[[0]]]))
   \<and> (0 :: nat) < 2 \<and> in_range 3 [[1, 2]]
   \<and> (\<exists>scores preds logits hidden_state.
         decode_forced tiny_model [[1, 2]] [[[1, 2], [3, 4]]] ([[[0]]], [[[0]]])
           = Inr (scores, preds)
       \<and> Decoder_forward (decoder tiny_model) [[1, 2]] [[[1, 2], [3, 4]]] ([[[0]]], [[[0]]])
           = Inr (logits, hidden_state)
       \<and> shape3 1 2 3 logits \<and> scores = log_softmax_dim2 logits \<and> shape3 1 2 3 scores
       \<and> shape2 1 2 preds
       \<and> preds ! 0 ! 1 = argmax (logits ! 0 ! 1)
       \<and> logits ! 0 ! 1 ! nat (preds ! 0 ! 1) = Max (set (logits ! 0 ! 1)))"
proof -
  have a: "wf_Decoder 1 1 3 (decoder tiny_model)"
    using wf_tiny_model by (simp add: wf_Seq2Seq_def)
  have b: "(0 :: nat) < 1" by simp
  have c: "shape2 1 2 [[1, 2 :: int]]" by (simp add: shape2_def)
  have d: "shape3 1 2 (2 * 1) [[[1, 2], [3, 4 :: real]]]" by (simp add: shape3_def shape2_def)
  have e: "shape3 1 1 1 (fst ([[[0]]], [[[0 :: real]]]))"
    and f: "shape3 1 1 1 (snd ([[[0 :: real]]], [[[0]]]))"
    by (simp_all add: shape3_def shape2_def)
  have g: "(0 :: nat) < 2 \<and> in_range 3 [[1, 2]]" by (simp add: in_range_def)
  note t = decode_forced_scores_predictions[OF a b c d e f]
  from t g obtain scores preds where
    r: "decode_forced tiny_model [[1, 2]] [[[1, 2], [3, 4]]] ([[[0]]], [[[0]]])
           = Inr (scores, preds)" by blast
  from t r obtain logits hidden_state where
    dl: "Decoder_forward (decoder tiny_model) [[1, 2]] [[[1, 2], [3, 4]]] ([[[0]]], [[[0]]])
           = Inr (logits, hidden_state)"
    and l: "shape3 1 2 3 logits" and sc: "scores = log_softmax_dim2 logits"
    and s3: "shape3 1 2 3 scores" and s2: "shape2 1 2 preds"
    and all: "\<forall>i<1. \<forall>t<2. preds ! i ! t = argmax (logits ! i ! t)
                   \<and> 0 \<le> preds ! i ! t \<and> preds ! i ! t < int 3
                   \<and> logits ! i ! t ! nat (preds ! i ! t) = Max (set (logits ! i ! t))"
    by blast
  have lt: "(0 :: nat) < 1" "(1 :: nat) < 2" by simp_all
  note ij = all[rule_format, OF lt]
  have i: "preds ! 0 ! 1 = argmax (logits ! 0 ! 1)"
    by (rule ij[THEN conjunct1])
  have j: "logits ! 0 ! 1 ! nat (preds ! 0 ! 1) = Max (set (logits ! 0 ! 1))"
    by (rule ij[THEN conjunct2, THEN conjunct2, THEN conjunct2])
  show ?thesis using r a b c d e f g dl l sc s3 s2 i j by blast
qed

section \<open>Indices out of range\<close>

lemma Encoder_forward_Inr:
  "in_range (length (enc_embedding_layer enc)) inputs \<Longrightarrow> \<exists>r. Encoder_forward enc inputs = Inr r"
  by (simp add: Encoder_forward_def Embedding_forward_in_range Let_def)

text \<open>
  C8. A call of \<^verbatim>\<open>Seq2Seq.forward\<close> whose source tensor has an index outside the source
  vocabulary, or whose target tensor has an index outside the target vocabulary, returns
  no scores and predictions: it fails with the index error, which the embedding lookup
  of the encoder or of the decoder raises.
\<close>

theorem forward_index_out_of_range:
  assumes wf: "wf_Seq2Seq E H Vs Vt m"
    and bad: "\<not> in_range Vs inputs \<or> (\<exists>t. targets = Some t \<and> \<not> in_range Vt t)"
  shows "forward m inputs targets max_len = Inl IndexOutOfRange
       \<and> (Embedding_forward (enc_embedding_layer (encoder m)) inputs = Inl IndexOutOfRange
          \<or> (\<exists>t. targets = Some t
                \<and> Embedding_forward (dec_embedding_layer (decoder m)) t = Inl IndexOutOfRange))"
proof (cases "in_range Vs inputs")
  case False
  have Vs: "length (enc_embedding_layer (encoder m)) = Vs"
    using wf by (simp add: wf_Seq2Seq_def wf_Encoder_def shape2_def)
  have e: "Embedding_forward (enc_embedding_layer (encoder m)) inputs = Inl IndexOutOfRange"
    using False Vs by (simp add: Embedding_forward_out_of_range)
  then show ?thesis by (simp add: forward_def Encoder_forward_def)
next
  case True
  have Vs: "length (enc_embedding_layer (encoder m)) = Vs"
    and Vt: "length (dec_embedding_layer (decoder m)) = Vt"
    using wf by (simp_all add: wf_Seq2Seq_def wf_Encoder_def wf_Decoder_def shape2_def)
  from True bad obtain t where t: "targets = Some t" "\<not> in_range Vt t" by blast
  obtain r where r: "Encoder_forward (encoder m) inputs = Inr r"
    using Encoder_forward_Inr[of "encoder m" inputs] True Vs by auto
  have e: "Embedding_forward (dec_embedding_layer (decoder m)) t = Inl IndexOutOfRange"
    using t(2) Vt by (simp add: Embedding_forward_out_of_range)
  then have "decode_forced m t (fst r) (snd r) = Inl IndexOutOfRange"
    by (simp add: decode_forced_def Decoder_forward_def Let_def)
  then show ?thesis using e t(1) by (simp add: forward_def r Let_def)
qed

theorem forward_index_out_of_range_witness:
  "wf_Seq2Seq 1 1 2 3 tiny_model
   \<and> in_range 2 [[0, 1]] \<and> \<not> in_range 3 [[1, 3]]
   \<and> forward tiny_model [[0, 1]] (Some [[1, 3]]) 50 = Inl IndexOutOfRange
   \<and> \<not> in_range 2 [[0, - 1]]
   \<and> forward tiny_model [[0, - 1]] None 50 = Inl IndexOutOfRange"
proof -
  have a: "\<not> in_range 3 [[1, 3]]" and b: "\<not> in_range 2 [[0, - 1]]" and c: "in_range 2 [[0, 1]]"
    by (simp_all add: in_range_def)
  show ?thesis
    using forward_index_out_of_range[OF wf_tiny_model, of "[[0, 1]]" "Some [[1, 3]]" 50]
      forward_index_out_of_range[OF wf_tiny_model, of "[[0, - 1]]" None 50]
      wf_tiny_model a b c
    by simp
qed

section \<open>Greedy decoding\<close>

text \<open>
  C10. With \<open>max_len \<le> 0\<close> the loop of \<^verbatim>\<open>decode_greedy\<close> returns its initial state, whose
  list of scores is empty (no call of the decoder), and \<^verbatim>\<open>decode_greedy\<close> raises at the
  concatenation of the empty list; it returns no pair of scores and predictions.
\<close>

theorem decode_greedy_nonpositive_max_len:
  assumes "max_len \<le> 0"
  shows "greedy_loop m encoder_outputs (length encoder_outputs) (nat max_len)
           (greedy_init m encoder_outputs encoder_hidden)
         = Inr (greedy_init m encoder_outputs encoder_hidden)
       \<and> fst (snd (greedy_init m encoder_outputs encoder_hidden)) = []
       \<and> decode_greedy m encoder_outputs encoder_hidden max_len = Inl CatEmptyList"
  using assms by (simp add: decode_greedy_def greedy_init_def Let_def)

theorem decode_greedy_nonpositive_max_len_witness:
  "(- 1 :: int) \<le> 0
   \<and> greedy_loop tiny_model [[[1, 2]]] (length [[[1, 2 :: real]]]) (nat (- 1))
       (greedy_init tiny_model [[[1, 2]]] ([[[0]]], [[[0]]]))
     = Inr (greedy_init tiny_model [[[1, 2]]] ([[[0]]], [[[0]]]))
   \<and> fst (snd (greedy_init tiny_model [[[1, 2]]] ([[[0]]], [[[0]]]))) = []
   \<and> decode_greedy tiny_model [[[1, 2]]] ([[[0]]], [[[0]]]) (- 1) = Inl CatEmptyList"
  using decode_greedy_nonpositive_max_len [of "- 1" tiny_model "[[[1, 2]]]" "([[[0]]], [[[0]]])"]
  by simp

text \<open>The invariant of the loop of \<^verbatim>\<open>decode_greedy\<close> and what one iteration does.\<close>

lemma shape2_nth: "shape2 B L t \<Longrightarrow> i < B \<Longrightarrow> length (t ! i) = L"
  by (simp add: shape2_def list_all_length)

lemma shape3_shape2_unit: "shape3 B 1 V t \<Longrightarrow> shape2 B 1 t"
  by (simp add: shape3_def shape2_def list_all_iff)

lemma last_column_shape:
  assumes "shape2 B (Suc n) preds"
  shows "shape2 B 1 (map (\<lambda>row. drop (length row - 1) row) preds)"
  using assms by (simp add: shape2_def list_all_iff)

lemma last_column_in_range:
  assumes "in_range V preds"
  shows "in_range V (map (\<lambda>row. drop (length row - 1) row) preds)"
  using assms by (auto simp add: in_range_def list_all_iff dest: in_set_dropD)

lemma last_rows_unit:
  assumes "shape3 B 1 V logits"
  shows "map (\<lambda>rows. drop (length rows - 1) rows) logits = logits"
proof -
  have "\<forall>rows\<in>set logits. length rows = 1"
    using assms by (simp add: shape3_def shape2_def list_all_iff)
  then show ?thesis by (simp add: map_idI)
qed

lemma greedy_step_result:
  assumes wf: "wf_Decoder E H V (decoder m)" and B: "0 < B" and enc: "length enc = B"
    and inv: "greedy_inv m B V s"
  shows "\<exists>step_scores h'.
           greedy_step m enc s =
             Inr (map2 (@) (fst s) (map (map argmax) step_scores),
                  fst (snd s) @ [step_scores], h')
         \<and> shape3 B 1 V step_scores \<and> hidden_ok B h'"
proof -
  let ?inputs = "map (\<lambda>row. drop (length row - 1) row) (fst s)"
  have sh: "shape2 B 1 ?inputs" and rng: "in_range V ?inputs"
    and hid: "hidden_ok B (snd (snd s))"
    using inv last_column_shape last_column_in_range by (auto simp add: greedy_inv_def)
  have one: "(0 :: nat) < 1" by simp
  from Decoder_forward_ok[OF wf sh B one rng enc hid] obtain logits h' where
    d: "Decoder_forward (decoder m) ?inputs enc (snd (snd s)) = Inr (logits, h')"
    and l: "shape3 B 1 V logits" and h: "hidden_ok B h'" by blast
  have "greedy_step m enc s =
          Inr (map2 (@) (fst s) (map (map argmax) (log_softmax_dim2 logits)),
               fst (snd s) @ [log_softmax_dim2 logits], h')"
    by (simp add: greedy_step_def Let_def d[simplified] last_rows_unit[OF l, simplified]
        max_dim2_def)
  then show ?thesis using shape3_log_softmax_dim2[OF l] h by blast
qed

lemma greedy_inv_step:
  assumes B: "0 < B" and inv: "greedy_inv m B V s" and ss: "shape3 B 1 V step_scores"
    and h: "hidden_ok B h'"
  shows "greedy_inv m B V (map2 (@) (fst s) (map (map argmax) step_scores),
                           fst (snd s) @ [step_scores], h')"
proof -
  let ?preds = "fst s" and ?scores = "fst (snd s)" and ?sp = "map (map argmax) step_scores"
  let ?n = "length ?scores"
  have p: "shape2 B (Suc ?n) ?preds" and r: "in_range V ?preds"
    and st: "list_all (\<lambda>row. hd row = START_INDEX m) ?preds"
    and sc: "list_all (shape3 B 1 V) ?scores"
    and link: "\<forall>i<B. \<forall>t<?n. ?preds ! i ! Suc t = argmax (hd (?scores ! t ! i))"
    using inv by (simp_all add: greedy_inv_def)
  have lp: "length ?preds = B" and lss: "length step_scores = B"
    using p ss by (simp_all add: shape2_def shape3_def)
  have one: "(0 :: nat) < 1" by simp
  have V: "0 < V" using in_range_positive[OF r p B] by simp
  have row: "length (?preds ! i) = Suc ?n" if "i < B" for i using shape2_nth[OF p that] .
  have srow: "length (step_scores ! i) = 1 \<and> length (step_scores ! i ! 0) = V" if "i < B" for i
    using shape3_nth[OF ss that one] by simp
  have nth: "map2 (@) ?preds ?sp ! i = ?preds ! i @ [argmax (hd (step_scores ! i))]"
    if "i < B" for i
  proof -
    have "step_scores ! i = [hd (step_scores ! i)]"
      using srow[OF that] by (cases "step_scores ! i") simp_all
    then have "map argmax (step_scores ! i) = [argmax (hd (step_scores ! i))]"
      by (metis list.simps(8,9))
    then show ?thesis using that lp lss by simp
  qed
  have a: "shape2 B (Suc (length (?scores @ [step_scores]))) (map2 (@) ?preds ?sp)"
    using lp lss nth row by (simp add: shape2_def list_all_length)
  have am: "0 \<le> argmax (hd (step_scores ! i)) \<and> argmax (hd (step_scores ! i)) < int V"
    if "i < B" for i
  proof -
    have "hd (step_scores ! i) = step_scores ! i ! 0"
      using srow[OF that] by (cases "step_scores ! i") simp_all
    then have "length (hd (step_scores ! i)) = V" using srow[OF that] by simp
    then have "hd (step_scores ! i) \<noteq> []" using V by auto
    from argmax_props(1,2)[OF this] \<open>length (hd (step_scores ! i)) = V\<close> show ?thesis by simp
  qed
  have rn: "list_all (\<lambda>x. 0 \<le> x \<and> x < int V) (?preds ! i)" if "i < B" for i
    using r lp that by (simp add: in_range_def list_all_length)
  have b: "in_range V (map2 (@) ?preds ?sp)"
    unfolding in_range_def
    by (rule list_all_length[THEN iffD2]) (use lp lss nth rn am in simp)
  have ne: "?preds ! i \<noteq> []" if "i < B" for i using row[OF that] by auto
  have hdi: "hd (?preds ! i) = START_INDEX m" if "i < B" for i
    using st lp that by (simp add: list_all_length)
  have c: "list_all (\<lambda>row. hd row = START_INDEX m) (map2 (@) ?preds ?sp)"
    using lp lss nth ne hdi by (simp add: list_all_length)
  have d: "list_all (shape3 B 1 V) (?scores @ [step_scores])" using sc ss by simp
  have e: "map2 (@) ?preds ?sp ! i ! Suc t = argmax (hd ((?scores @ [step_scores]) ! t ! i))"
    if "i < B" and "t < Suc ?n" for i t
  proof (cases "t < ?n")
    case True
    then show ?thesis using nth[OF that(1)] row[OF that(1)] link that(1)
      by (simp add: nth_append)
  next
    case False
    then have "t = ?n" using that(2) by simp
    then show ?thesis using nth[OF that(1)] row[OF that(1)] by (simp add: nth_append)
  qed
  show ?thesis
    unfolding greedy_inv_def using a b c d e h by simp
qed

lemma greedy_inv_init:
  assumes "0 \<le> START_INDEX m" and "START_INDEX m < int V" and "length enc = B"
    and "hidden_ok B hid"
  shows "greedy_inv m B V (greedy_init m enc hid)"
  using assms
  by (simp add: greedy_inv_def greedy_init_def Let_def shape2_def in_range_def list_all_iff)

lemma count_pos: "(0 < (\<Sum>p\<leftarrow>row. if p = e then 1 else 0 :: nat)) \<longleftrightarrow> e \<in> set row"
  by (induction row) auto

lemma indicator_sum_le: "(\<Sum>x\<leftarrow>xs. if P x then 1 else 0 :: nat) \<le> length xs"
  by (induction xs) auto

lemma indicator_sum_eq_length:
  "(\<Sum>x\<leftarrow>xs. if P x then 1 else 0 :: nat) = length xs \<longleftrightarrow> (\<forall>x\<in>set xs. P x)"
proof (induction xs)
  case Nil
  then show ?case by simp
next
  case (Cons x xs)
  show ?case using Cons indicator_sum_le[of P xs] by auto
qed

lemma all_finished_iff:
  "length preds = B \<Longrightarrow>
     all_finished m preds B \<longleftrightarrow> (\<forall>row\<in>set preds. END_INDEX m \<in> set row)"
  unfolding all_finished_def count_pos
  using indicator_sum_eq_length[of "\<lambda>row. END_INDEX m \<in> set row" preds] by simp

lemma greedy_loop_inv:
  assumes wf: "wf_Decoder E H V (decoder m)" and B: "0 < B" and enc: "length enc = B"
  shows "greedy_inv m B V s \<Longrightarrow>
         \<exists>s'. greedy_loop m enc B n s = Inr s' \<and> greedy_inv m B V s'
            \<and> length (fst (snd s')) \<le> length (fst (snd s)) + n
            \<and> (training m \<longrightarrow> length (fst (snd s')) = length (fst (snd s)) + n)
            \<and> (0 < n \<longrightarrow> length (fst (snd s)) < length (fst (snd s')))"
proof (induction n arbitrary: s)
  case 0
  then show ?case by simp
next
  case (Suc n)
  from greedy_step_result[OF wf B enc Suc.prems] obtain step_scores h' where
    st: "greedy_step m enc s =
           Inr (map2 (@) (fst s) (map (map argmax) step_scores),
                fst (snd s) @ [step_scores], h')"
    and ss: "shape3 B 1 V step_scores" and h: "hidden_ok B h'" by blast
  let ?s1 = "(map2 (@) (fst s) (map (map argmax) step_scores), fst (snd s) @ [step_scores], h')"
  have inv1: "greedy_inv m B V ?s1" using greedy_inv_step[OF B Suc.prems ss h] .
  show ?case
  proof (cases "all_finished m (fst ?s1) B \<and> \<not> training m")
    case True
    then have "greedy_loop m enc B (Suc n) s = Inr ?s1" by (simp add: st)
    then show ?thesis using inv1 True by simp
  next
    case False
    then have eq: "greedy_loop m enc B (Suc n) s = greedy_loop m enc B n ?s1"
      by (auto simp add: st)
    from Suc.IH[OF inv1] obtain s' where
      "greedy_loop m enc B n ?s1 = Inr s'" "greedy_inv m B V s'"
      "length (fst (snd s')) \<le> length (fst (snd ?s1)) + n"
      "training m \<longrightarrow> length (fst (snd s')) = length (fst (snd ?s1)) + n"
      "0 < n \<longrightarrow> length (fst (snd ?s1)) < length (fst (snd s'))" by blast
    moreover from this have "length (fst (snd ?s1)) \<le> length (fst (snd s'))"
      by (cases n) auto
    ultimately show ?thesis unfolding eq by (intro exI[of _ s']) auto
  qed
qed

lemma step_row_nth:
  assumes "length preds = B" and "shape3 B 1 V step_scores" and "i < B"
  shows "map2 (@) preds (map (map argmax) step_scores) ! i =
           preds ! i @ [argmax (hd (step_scores ! i))]"
proof -
  have one: "(0 :: nat) < 1" by simp
  have "length (step_scores ! i) = 1" using shape3_nth(1)[OF assms(2,3) one] .
  then have "step_scores ! i = [hd (step_scores ! i)]"
    by (cases "step_scores ! i") simp_all
  then have "map argmax (step_scores ! i) = [argmax (hd (step_scores ! i))]"
    by (metis list.simps(8,9))
  moreover have "length step_scores = B" using assms(2) by (simp add: shape3_def)
  ultimately show ?thesis using assms(1,3) by simp
qed

lemma in_take_tl: "x \<in> set (take k (tl row)) \<Longrightarrow> x \<in> set row"
  by (cases row) (auto dest: in_set_takeD)

lemma greedy_loop_early_stop:
  assumes wf: "wf_Decoder E H V (decoder m)" and B: "0 < B" and enc: "length enc = B"
    and ev: "\<not> training m"
  shows "greedy_inv m B V s \<Longrightarrow>
         fst (snd s) = [] \<or> \<not> all_finished m (fst s) B \<Longrightarrow>
         greedy_loop m enc B n s = Inr s' \<Longrightarrow>
         \<forall>row\<in>set (fst s'). END_INDEX m \<in> set (take k (tl row)) \<Longrightarrow>
         length (fst (snd s')) \<le> k"
proof (induction n arbitrary: s)
  case 0
  then have s': "s' = s" by simp
  have len: "length (fst s) = B" using "0.prems"(1) by (simp add: greedy_inv_def shape2_def)
  have "\<forall>row\<in>set (fst s). END_INDEX m \<in> set row"
  proof
    fix row assume "row \<in> set (fst s)"
    then have "END_INDEX m \<in> set (take k (tl row))" using "0.prems"(4) s' by simp
    then show "END_INDEX m \<in> set row"
      by (rule in_take_tl)
  qed
  then have "all_finished m (fst s) B" using all_finished_iff[OF len] by simp
  then have "fst (snd s) = []" using "0.prems"(2) by simp
  then show ?case using s' by simp
next
  case (Suc n)
  let ?j = "length (fst (snd s))"
  have p: "shape2 B (Suc ?j) (fst s)" using Suc.prems(1) by (simp add: greedy_inv_def)
  have len: "length (fst s) = B" using p by (simp add: shape2_def)
  from greedy_step_result[OF wf B enc Suc.prems(1)] obtain step_scores h' where
    st: "greedy_step m enc s =
           Inr (map2 (@) (fst s) (map (map argmax) step_scores),
                fst (snd s) @ [step_scores], h')"
    and ss: "shape3 B 1 V step_scores" and h: "hidden_ok B h'" by blast
  let ?p1 = "map2 (@) (fst s) (map (map argmax) step_scores)"
  let ?s1 = "(?p1, fst (snd s) @ [step_scores], h')"
  have inv1: "greedy_inv m B V ?s1" using greedy_inv_step[OF B Suc.prems(1) ss h] .
  have len1: "length ?p1 = B" using inv1 by (simp add: greedy_inv_def shape2_def)
  show ?case
  proof (cases "all_finished m ?p1 B")
    case True
    then have s': "s' = ?s1" using Suc.prems(3) ev by (simp add: st)
    show ?thesis
    proof (rule ccontr)
      assume "\<not> length (fst (snd s')) \<le> k"
      then have k: "k \<le> ?j" using s' by simp
      have rows: "END_INDEX m \<in> set (take k (tl (fst s ! i)))" if "i < B" for i
      proof -
        have "i < length ?p1" using that len1 by simp
        then have "?p1 ! i \<in> set ?p1" by (rule nth_mem)
        moreover have "fst s' = ?p1" using s' by simp
        ultimately have "?p1 ! i \<in> set (fst s')" by simp
        then have "END_INDEX m \<in> set (take k (tl (?p1 ! i)))" using Suc.prems(4) by blast
        moreover have "length (fst s ! i) = Suc ?j" using shape2_nth[OF p that] .
        moreover from this have "fst s ! i \<noteq> []" by auto
        ultimately show ?thesis
          using k by (simp add: step_row_nth[OF len ss that])
      qed
      have "\<forall>row\<in>set (fst s). END_INDEX m \<in> set row"
      proof
        fix row assume "row \<in> set (fst s)"
        then obtain i where "i < B" "row = fst s ! i" using len by (metis in_set_conv_nth)
        then have "END_INDEX m \<in> set (take k (tl row))" using rows by simp
        then show "END_INDEX m \<in> set row"
          by (rule in_take_tl)
      qed
      then have "all_finished m (fst s) B" using all_finished_iff[OF len] by simp
      then have "fst (snd s) = []" using Suc.prems(2) by simp
      then have "k = 0" using k by simp
      then show False using rows[OF B] by simp
    qed
  next
    case False
    then have eq: "greedy_loop m enc B n ?s1 = Inr s'" using Suc.prems(3) by (simp add: st)
    have pre: "fst (snd ?s1) = [] \<or> \<not> all_finished m (fst ?s1) B" using False by simp
    show ?thesis using Suc.IH[OF inv1 pre eq Suc.prems(4)] .
  qed
qed

lemma greedy_run:
  assumes wf: "wf_Seq2Seq E H Vs Vt m" and B: "0 < B"
    and enc: "shape3 B L (2 * H) encoder_outputs"
    and h1: "shape3 1 B H (fst encoder_hidden)" and h2: "shape3 1 B H (snd encoder_hidden)"
  shows "greedy_inv m B Vt (greedy_init m encoder_outputs encoder_hidden)"
    and "\<exists>s'. greedy_loop m encoder_outputs (length encoder_outputs) n
                 (greedy_init m encoder_outputs encoder_hidden) = Inr s'
            \<and> greedy_inv m B Vt s'
            \<and> length (fst (snd s')) \<le> n
            \<and> (training m \<longrightarrow> length (fst (snd s')) = n)
            \<and> (0 < n \<longrightarrow> 0 < length (fst (snd s')))"
proof -
  have wfd: "wf_Decoder E H Vt (decoder m)" and s0: "0 \<le> START_INDEX m"
    and s1: "START_INDEX m < int Vt"
    using wf by (simp_all add: wf_Seq2Seq_def)
  have len: "length encoder_outputs = B" using enc by (simp add: shape3_def)
  have hid: "hidden_ok B encoder_hidden" using shape3_hidden_ok[OF h1 h2] .
  show inv: "greedy_inv m B Vt (greedy_init m encoder_outputs encoder_hidden)"
    using greedy_inv_init[OF s0 s1 len hid] .
  have e: "fst (snd (greedy_init m encoder_outputs encoder_hidden)) = []"
    by (simp add: greedy_init_def Let_def)
  show "\<exists>s'. greedy_loop m encoder_outputs (length encoder_outputs) n
                 (greedy_init m encoder_outputs encoder_hidden) = Inr s'
            \<and> greedy_inv m B Vt s'
            \<and> length (fst (snd s')) \<le> n
            \<and> (training m \<longrightarrow> length (fst (snd s')) = n)
            \<and> (0 < n \<longrightarrow> 0 < length (fst (snd s')))"
    using greedy_loop_inv[OF wfd B len inv, of n] by (simp add: e len)
qed

lemma argmax_second:
  assumes "x < 1"
  shows "argmax [x - c, 1 - c, - c] = 1"
proof -
  have "Max (set [x - c, 1 - c, - c]) = 1 - c" using assms by (simp add: max_def)
  then show ?thesis using assms unfolding argmax_def by simp
qed

lemmas model_defs = tiny_model_def tiny_lstm_def tiny_attention_def

lemmas eval_defs = greedy_step_def Decoder_forward_def Embedding_forward_def decoder_step_def
  LSTM_forward_def lstm_cell_def Linear_forward_def Attention_forward_def attention_applied_def
  attn_weights_def attn_scores_def softmax_dim1_def bmm_def matmul_def dot_def transpose_mat_def
  Linear_nobias_forward_def unsqueeze1_def squeeze1_def cat_dim1_def size1_def
  log_softmax_dim2_def log_softmax_def max_dim2_def Let_def

lemma tiny_first_step:
  "\<exists>scores h. greedy_step (tiny_model\<lparr>END_INDEX := 1\<rparr>) [[[1, 2]]]
                 (greedy_init (tiny_model\<lparr>END_INDEX := 1\<rparr>) [[[1, 2]]] ([[[0]]], [[[0]]]))
               = Inr ([[1, 1]], scores, h)"
  by (simp add: eval_defs model_defs greedy_init_def argmax_second tanh_real_lt_1)

lemma size1_shape2: "shape2 B L t \<Longrightarrow> 0 < B \<Longrightarrow> size1 t = L"
  by (cases t) (simp_all add: shape2_def size1_def)

lemma strip_seed:
  assumes "length row = Suc n" and "hd row = s"
  shows "s # take (Suc n - 1) (drop 1 row) = row"
  using assms by (cases row) simp_all

lemma tiny_two_steps:
  "\<exists>scores h.
     greedy_loop (tiny_model\<lparr>END_INDEX := 1, training := True\<rparr>) [[[1, 2]]] 1 (Suc (Suc 0))
       (greedy_init (tiny_model\<lparr>END_INDEX := 1, training := True\<rparr>) [[[1, 2]]]
          ([[[0]]], [[[0]]]))
     = Inr ([[1, 1, 1]], scores, h)"
  by (simp add: eval_defs model_defs greedy_init_def argmax_second tanh_real_lt_1)

text \<open>
  C4. In training mode the loop of \<^verbatim>\<open>decode_greedy\<close> never takes its \<^verbatim>\<open>break\<close>: started
  on encoder outputs of shape \<open>(B, L, 2H)\<close> and a hidden state of shape \<open>(1, B, H)\<close>, it
  returns, and the number of decoder steps, which is the length of the list of scores,
  is exactly \<open>max_len\<close> (read as the number of iterations of \<^verbatim>\<open>range(max_len)\<close>), whatever
  the predictions hold.
\<close>

theorem decode_greedy_training_steps:
  assumes wf: "wf_Seq2Seq E H Vs Vt m" and tr: "training m" and B: "0 < B"
    and enc: "shape3 B L (2 * H) encoder_outputs"
    and h1: "shape3 1 B H (fst encoder_hidden)" and h2: "shape3 1 B H (snd encoder_hidden)"
  shows "\<exists>preds scores h.
           greedy_loop m encoder_outputs (length encoder_outputs) (nat max_len)
             (greedy_init m encoder_outputs encoder_hidden) = Inr (preds, scores, h)
         \<and> length scores = nat max_len"
proof -
  from greedy_run(2)[OF wf B enc h1 h2, of "nat max_len"] tr obtain s' where
    run: "greedy_loop m encoder_outputs (length encoder_outputs) (nat max_len)
            (greedy_init m encoder_outputs encoder_hidden) = Inr s'"
    and le: "length (fst (snd s')) = nat max_len" by blast
  obtain preds scores h where s': "s' = (preds, scores, h)" by (cases s') auto
  show ?thesis using run le unfolding s' by auto
qed

theorem decode_greedy_training_steps_witness:
  "\<exists>preds scores h.
     greedy_loop (tiny_model\<lparr>END_INDEX := 1, training := True\<rparr>) [[[1, 2]]]
       (length [[[1, 2 :: real]]]) (nat 2)
       (greedy_init (tiny_model\<lparr>END_INDEX := 1, training := True\<rparr>) [[[1, 2]]]
          ([[[0]]], [[[0]]]))
     = Inr (preds, scores, h)
   \<and> length scores = nat 2
   \<and> list_all (\<lambda>row. END_INDEX (tiny_model\<lparr>END_INDEX := 1, training := True\<rparr>)
                       \<in> set (take 1 (tl row))) preds"
proof -
  let ?m = "tiny_model\<lparr>END_INDEX := 1, training := True\<rparr>"
  have wf: "wf_Seq2Seq 1 1 2 3 ?m" using wf_tiny_model by (simp add: wf_Seq2Seq_def)
  have tr: "training ?m" by simp
  have B: "(0 :: nat) < 1" by simp
  have enc: "shape3 1 1 (2 * 1) [[[1, 2 :: real]]]" by (simp add: shape3_def shape2_def)
  have h: "shape3 1 1 1 (fst ([[[0 :: real]]], [[[0 :: real]]]))"
    "shape3 1 1 1 (snd ([[[0 :: real]]], [[[0 :: real]]]))"
    by (simp_all add: shape3_def shape2_def)
  from decode_greedy_training_steps[OF wf tr B enc h, of 2] obtain preds scores hd' where
    run: "greedy_loop ?m [[[1, 2]]] (length [[[1, 2 :: real]]]) (nat 2)
            (greedy_init ?m [[[1, 2]]] ([[[0]]], [[[0]]])) = Inr (preds, scores, hd')"
    and n: "length scores = nat 2"
    by blast
  from tiny_two_steps obtain sc2 h2 where
    "greedy_loop ?m [[[1, 2]]] 1 (Suc (Suc 0))
       (greedy_init ?m [[[1, 2]]] ([[[0]]], [[[0]]])) = Inr ([[1, 1, 1]], sc2, h2)" by blast
  then have p: "preds = [[1, 1, 1]]" using run by (simp add: eval_nat_numeral)
  have e: "list_all (\<lambda>row. END_INDEX ?m \<in> set (take 1 (tl row))) [[1, 1, 1]]"
    by simp
  show ?thesis using run n e unfolding p by blast
qed

text \<open>
  C3. In evaluation mode the loop of \<^verbatim>\<open>decode_greedy\<close> returns after at most \<open>max_len\<close>
  decoder steps, and if every row of the batch holds the end token among the predictions
  of its first \<open>k\<close> steps (the seed is not one of them), then the number of decoder steps
  is at most \<open>k\<close>.
\<close>

theorem decode_greedy_eval_steps:
  assumes wf: "wf_Seq2Seq E H Vs Vt m" and ev: "\<not> training m" and B: "0 < B"
    and enc: "shape3 B L (2 * H) encoder_outputs"
    and h1: "shape3 1 B H (fst encoder_hidden)" and h2: "shape3 1 B H (snd encoder_hidden)"
  shows "\<exists>preds scores h.
           greedy_loop m encoder_outputs (length encoder_outputs) (nat max_len)
             (greedy_init m encoder_outputs encoder_hidden) = Inr (preds, scores, h)
         \<and> length scores \<le> nat max_len
         \<and> (\<forall>k. list_all (\<lambda>row. END_INDEX m \<in> set (take k (tl row))) preds
                \<longrightarrow> length scores \<le> k)"
proof -
  have wfd: "wf_Decoder E H Vt (decoder m)" using wf by (simp add: wf_Seq2Seq_def)
  have len: "length encoder_outputs = B" using enc by (simp add: shape3_def)
  let ?s0 = "greedy_init m encoder_outputs encoder_hidden"
  note inv = greedy_run(1)[OF wf B enc h1 h2]
  from greedy_run(2)[OF wf B enc h1 h2, of "nat max_len"] obtain s' where
    run: "greedy_loop m encoder_outputs (length encoder_outputs) (nat max_len) ?s0 = Inr s'"
    and le: "length (fst (snd s')) \<le> nat max_len" by blast
  have pre: "fst (snd ?s0) = [] \<or> \<not> all_finished m (fst ?s0) B"
    by (simp add: greedy_init_def Let_def)
  have stop: "length (fst (snd s')) \<le> k"
    if "list_all (\<lambda>row. END_INDEX m \<in> set (take k (tl row))) (fst s')" for k
  proof -
    have a: "\<forall>row\<in>set (fst s'). END_INDEX m \<in> set (take k (tl row))"
      using that by (simp add: list_all_iff)
    show ?thesis
      using greedy_loop_early_stop[OF wfd B len ev inv pre run[unfolded len] a] .
  qed
  obtain preds scores h where s': "s' = (preds, scores, h)" by (cases s') auto
  show ?thesis
    using run le stop unfolding s' by auto
qed

theorem decode_greedy_eval_steps_witness:
  "\<exists>scores h.
     greedy_loop (tiny_model\<lparr>END_INDEX := 1\<rparr>) [[[1, 2]]] (length [[[1, 2 :: real]]]) (nat 3)
       (greedy_init (tiny_model\<lparr>END_INDEX := 1\<rparr>) [[[1, 2]]] ([[[0]]], [[[0]]]))
     = Inr ([[1, 1]], scores, h)
   \<and> length scores \<le> nat 3
   \<and> list_all (\<lambda>row. END_INDEX (tiny_model\<lparr>END_INDEX := 1\<rparr>) \<in> set (take 1 (tl row))) [[1, 1]]
   \<and> length scores \<le> 1"
proof -
  let ?m = "tiny_model\<lparr>END_INDEX := 1\<rparr>"
  have wf: "wf_Seq2Seq 1 1 2 3 ?m" using wf_tiny_model by (simp add: wf_Seq2Seq_def)
  have ev: "\<not> training ?m" by (simp add: tiny_model_def)
  have B: "(0 :: nat) < 1" by simp
  have enc: "shape3 1 1 (2 * 1) [[[1, 2 :: real]]]" by (simp add: shape3_def shape2_def)
  have h: "shape3 1 1 1 (fst ([[[0 :: real]]], [[[0 :: real]]]))"
    "shape3 1 1 1 (snd ([[[0 :: real]]], [[[0 :: real]]]))"
    by (simp_all add: shape3_def shape2_def)
  from decode_greedy_eval_steps[OF wf ev B enc h, of 3] obtain preds scores hd' where
    run: "greedy_loop ?m [[[1, 2]]] (length [[[1, 2 :: real]]]) (nat 3)
            (greedy_init ?m [[[1, 2]]] ([[[0]]], [[[0]]])) = Inr (preds, scores, hd')"
    and le: "length scores \<le> nat 3"
    and stop: "\<forall>k. list_all (\<lambda>row. END_INDEX ?m \<in> set (take k (tl row))) preds
                 \<longrightarrow> length scores \<le> k"
    by blast
  from tiny_first_step obtain sc1 h1 where
    st: "greedy_step ?m [[[1, 2]]] (greedy_init ?m [[[1, 2]]] ([[[0]]], [[[0]]]))
           = Inr ([[1, 1]], sc1, h1)" by blast
  have fin: "all_finished ?m [[1, 1]] 1" by (simp add: all_finished_def tiny_model_def)
  have "greedy_loop ?m [[[1, 2]]] (length [[[1, 2 :: real]]]) (nat 3)
            (greedy_init ?m [[[1, 2]]] ([[[0]]], [[[0]]])) = Inr ([[1, 1]], sc1, h1)"
    using st fin ev by (simp add: eval_nat_numeral)
  then have p: "preds = [[1, 1]]" using run by simp
  have e: "list_all (\<lambda>row. END_INDEX ?m \<in> set (take 1 (tl row))) [[1, 1]]"
    by (simp add: tiny_model_def)
  then have "length scores \<le> 1" using stop p by blast
  then show ?thesis using run le e unfolding p by blast
qed

text \<open>
  C5. With \<open>max_len \<ge> 1\<close> the loop performs \<open>n \<ge> 1\<close> steps and \<^verbatim>\<open>decode_greedy\<close> returns.
  The returned predictions are the predictions of the loop without their first column,
  which holds the start token; they have shape \<open>(B, n)\<close>, the returned scores have shape
  \<open>(B, n, V)\<close>, the scores at \<open>(i, t)\<close> are the scores of step \<open>t\<close> for the batch item \<open>i\<close>,
  and the prediction at \<open>(i, t)\<close> is the argmax of the scores at \<open>(i, t)\<close>.
\<close>

theorem decode_greedy_predictions_match_scores:
  assumes wf: "wf_Seq2Seq E H Vs Vt m" and B: "0 < B"
    and enc: "shape3 B L (2 * H) encoder_outputs"
    and h1: "shape3 1 B H (fst encoder_hidden)" and h2: "shape3 1 B H (snd encoder_hidden)"
    and ml: "1 \<le> max_len"
  shows "\<exists>preds scores h ret_scores ret_preds.
           greedy_loop m encoder_outputs (length encoder_outputs) (nat max_len)
             (greedy_init m encoder_outputs encoder_hidden) = Inr (preds, scores, h)
         \<and> 1 \<le> length scores
         \<and> decode_greedy m encoder_outputs encoder_hidden max_len = Inr (ret_scores, ret_preds)
         \<and> preds = map (\<lambda>row. START_INDEX m # row) ret_preds
         \<and> shape3 B (length scores) Vt ret_scores
         \<and> shape2 B (length scores) ret_preds
         \<and> (\<forall>i<B. \<forall>t<length scores.
               ret_scores ! i ! t = hd (scores ! t ! i)
             \<and> ret_preds ! i ! t = argmax (ret_scores ! i ! t))"
proof -
  let ?s0 = "greedy_init m encoder_outputs encoder_hidden"
  have pos: "0 < nat max_len" using ml by simp
  from greedy_run(2)[OF wf B enc h1 h2, of "nat max_len"] pos obtain s' where
    run: "greedy_loop m encoder_outputs (length encoder_outputs) (nat max_len) ?s0 = Inr s'"
    and inv: "greedy_inv m B Vt s'" and n1: "0 < length (fst (snd s'))" by blast
  obtain preds scores h where s': "s' = (preds, scores, h)" by (cases s') auto
  let ?n = "length scores"
  have n: "0 < ?n" and ne: "scores \<noteq> []" using n1 s' by auto
  have p: "shape2 B (Suc ?n) preds" and st: "list_all (\<lambda>row. hd row = START_INDEX m) preds"
    and sc: "list_all (shape3 B 1 Vt) scores"
    and am: "\<forall>i<B. \<forall>t<?n. preds ! i ! Suc t = argmax (hd (scores ! t ! i))"
    using inv by (simp_all add: greedy_inv_def s')
  let ?rs = "cat_dim1 scores"
  let ?rp = "map (\<lambda>row. take (size1 preds - 1) (drop 1 row)) preds"
  have dg: "decode_greedy m encoder_outputs encoder_hidden max_len = Inr (?rs, ?rp)"
    using run ne by (simp add: decode_greedy_def Let_def s')
  have s1: "size1 preds = Suc ?n" using size1_shape2[OF p B] .
  have lp: "length preds = B" using p by (simp add: shape2_def)
  have rowlen: "length row = Suc ?n" if "row \<in> set preds" for row
    using p that by (simp add: shape2_def list_all_iff)
  have rowhd: "hd row = START_INDEX m" if "row \<in> set preds" for row
    using st that by (simp add: list_all_iff)
  have seed: "preds = map (\<lambda>row. START_INDEX m # row) ?rp"
  proof -
    have "map (\<lambda>row. START_INDEX m # row) ?rp
            = map (\<lambda>row. START_INDEX m # take (Suc ?n - 1) (drop 1 row)) preds"
      by (simp add: s1 comp_def)
    also have "\<dots> = map (\<lambda>row. row) preds"
      by (rule map_cong[OF refl]) (rule strip_seed[OF rowlen rowhd])
    finally show ?thesis by simp
  qed
  have sh2: "shape2 B ?n ?rp"
    using lp rowlen by (simp add: shape2_def list_all_iff s1)
  have u: "list_all (shape2 B 1) scores"
    unfolding list_all_iff
  proof
    fix t assume "t \<in> set scores"
    then have "shape3 B 1 Vt t" using sc by (simp add: list_all_iff)
    then show "shape2 B 1 t" by (rule shape3_shape2_unit)
  qed
  have rs: "?rs = map (\<lambda>b. map (\<lambda>t. hd (t ! b)) scores) [0..<B]"
    using cat_dim1_unit_rows[OF u ne] .
  have one: "(0 :: nat) < 1" by simp
  have cell: "length (hd (t ! b)) = Vt" if "t \<in> set scores" and "b < B" for t b
  proof -
    have t3: "shape3 B 1 Vt t" using sc that(1) by (simp add: list_all_iff)
    have "length (t ! b) = 1" using shape3_nth(1)[OF t3 that(2) one] .
    then have "hd (t ! b) = t ! b ! 0" by (cases "t ! b") simp_all
    then show ?thesis using shape3_nth(2)[OF t3 that(2) one] by simp
  qed
  have sh3: "shape3 B ?n Vt ?rs"
    unfolding rs using cell by (simp add: shape3_def shape2_def list_all_iff)
  have idx: "?rs ! i ! t = hd (scores ! t ! i) \<and> ?rp ! i ! t = argmax (?rs ! i ! t)"
    if i: "i < B" and t: "t < ?n" for i t
  proof -
    have a: "?rs ! i ! t = hd (scores ! t ! i)" using i t by (simp add: rs)
    have "preds ! i \<in> set preds" using i lp by simp
    then have "length (preds ! i) = Suc ?n" by (rule rowlen)
    then have "?rp ! i ! t = preds ! i ! Suc t" using i t lp by (simp add: s1)
    then show ?thesis using a am i t by simp
  qed
  have all: "\<forall>i<B. \<forall>t<?n. ?rs ! i ! t = hd (scores ! t ! i)
                            \<and> ?rp ! i ! t = argmax (?rs ! i ! t)"
    using idx by blast
  have n1': "1 \<le> ?n" using ne by (cases scores) simp_all
  show ?thesis
    apply (rule exI[of _ preds], rule exI[of _ scores], rule exI[of _ h])
    apply (rule exI[of _ ?rs], rule exI[of _ ?rp])
    apply (intro conjI)
          apply (rule run[unfolded s'])
         apply (rule n1')
        apply (rule dg)
       apply (rule seed)
      apply (rule sh3)
     apply (rule sh2)
    apply (rule all)
    done
qed

theorem decode_greedy_predictions_match_scores_witness:
  "\<exists>n ret_scores ret_preds.
     decode_greedy tiny_model [[[1, 2]]] ([[[0]]], [[[0]]]) 2 = Inr (ret_scores, ret_preds)
   \<and> 1 \<le> n
   \<and> shape3 1 n 3 ret_scores
   \<and> shape2 1 n ret_preds
   \<and> ret_preds ! 0 ! 0 = argmax (ret_scores ! 0 ! 0)"
proof -
  have B: "(0 :: nat) < 1" by simp
  have enc: "shape3 1 1 (2 * 1) [[[1, 2 :: real]]]" by (simp add: shape3_def shape2_def)
  have h: "shape3 1 1 1 (fst ([[[0 :: real]]], [[[0 :: real]]]))"
    "shape3 1 1 1 (snd ([[[0 :: real]]], [[[0 :: real]]]))"
    by (simp_all add: shape3_def shape2_def)
  have ml: "(1 :: int) \<le> 2" by simp
  from decode_greedy_predictions_match_scores[OF wf_tiny_model B enc h ml]
  obtain scores :: "tensor3 list" and ret_scores ret_preds where
    n: "1 \<le> length scores"
    and dg: "decode_greedy tiny_model [[[1, 2]]] ([[[0]]], [[[0]]]) 2
               = Inr (ret_scores, ret_preds)"
    and s3: "shape3 1 (length scores) 3 ret_scores"
    and s2: "shape2 1 (length scores) ret_preds"
    and all: "\<forall>i<1. \<forall>t<length scores.
               ret_scores ! i ! t = hd (scores ! t ! i)
             \<and> ret_preds ! i ! t = argmax (ret_scores ! i ! t)"
    by blast
  have t: "0 < length scores" using n by (cases scores) simp_all
  note ij = all[rule_format, OF B t]
  show ?thesis using dg n s3 s2 ij[THEN conjunct2] by blast
qed

end
